theory Spec2Isabelle
  imports Complex_Main "HOL-Library.Multiset"
begin

section \<open>The dataset partitioner of pybnn (\<open>pybnn/utils/data_utils.py\<close>, class \<open>Data\<close>)\<close>

text \<open>
  The class \<open>Data\<close> holds three aligned arrays of shapes \<open>[N, i, Dx]\<close>, \<open>[N, i, Dy]\<close> and
  \<open>[N, i, Dz]\<close>, a random generator, two optional Python generators and the current
  train and test arrays. The embedding follows the class method by method. Array elements
  are of an arbitrary type \<open>'a\<close>: the partitioner only moves them around.

  Three things of the Python world are made explicit.
  \<^item> Exceptions are values of the type \<open>error\<close>; a function that may raise returns
    \<open>error + 'a\<close>.
  \<^item> A Python generator runs no code when it is created; its body runs up to the next
    \<open>yield\<close> at every \<open>next\<close>. A generator is therefore a datatype of its suspension points
    (created, suspended at the \<open>yield\<close> of its loop, finished), and \<open>next\<close> is a function on it.
  \<^item> \<open>numpy.random.RandomState\<close> is a library object. Its state is a stream of raw
    values with a cursor; which stream belongs to which seed is the parameter \<open>prng\<close>, and
    the seed the operating system supplies for \<open>RandomState(None)\<close> is the parameter
    \<open>entropy\<close>. Every bounded integer the library hands out takes one raw value, reduced
    into its interval. All theorems hold for every stream, so for every sequence of results
    the library can produce.
\<close>

subsection \<open>Exceptions\<close>

datatype error =
    RuntimeError string
  | ValueError string
  | IndexError string
  | AssertionError "nat \<times> nat \<times> nat" "nat \<times> nat \<times> nat"
  | StopIteration

definition bindE :: "error + 'a \<Rightarrow> ('a \<Rightarrow> error + 'b) \<Rightarrow> error + 'b" where
  "bindE m f = (case m of Inl e \<Rightarrow> Inl e | Inr x \<Rightarrow> f x)"

subsection \<open>The random generator\<close>

record rng =
  raw :: "nat \<Rightarrow> nat"
  pos :: nat

record env =
  prng :: "nat \<Rightarrow> nat \<Rightarrow> nat"
  entropy :: nat

text \<open>The argument type \<open>Union[int, RandomState, None]\<close> of the source.\<close>

datatype rng_input = RngNone | RngSeed int | RngObj rng

definition seeded :: "env \<Rightarrow> nat \<Rightarrow> rng" where
  "seeded ev s = \<lparr>raw = prng ev s, pos = 0\<rparr>"

text \<open>
  The idiom \<open>if rng is None or isinstance(rng, int): rng = np.random.RandomState(rng)\<close>.
  The library accepts seeds from \<open>0\<close> to \<open>2**32 - 1\<close> and raises \<open>ValueError\<close> otherwise.
\<close>

definition as_random_state :: "env \<Rightarrow> rng_input \<Rightarrow> error + rng" where
  "as_random_state ev r =
     (case r of
        RngNone \<Rightarrow> Inr (seeded ev (entropy ev))
      | RngSeed s \<Rightarrow>
          if 0 \<le> s \<and> s < 2 ^ 32 then Inr (seeded ev (nat s))
          else Inl (ValueError ''Seed must be between 0 and 2**32 - 1'')
      | RngObj g \<Rightarrow> Inr g)"

definition next_raw :: "rng \<Rightarrow> nat \<times> rng" where
  "next_raw g = (raw g (pos g), g\<lparr>pos := Suc (pos g)\<rparr>)"

text \<open>\<open>rk_interval(max, state)\<close>: an integer of the closed interval \<open>[0, max]\<close>.\<close>

definition rk_interval :: "nat \<Rightarrow> rng \<Rightarrow> nat \<times> rng" where
  "rk_interval mx g = (case next_raw g of (r, g') \<Rightarrow> (r mod Suc mx, g'))"

text \<open>\<open>rng.randint(low, high)\<close>: an integer of \<open>[low, high)\<close>; \<open>ValueError\<close> when it is empty.\<close>

definition randint :: "int \<Rightarrow> int \<Rightarrow> rng \<Rightarrow> error + (int \<times> rng)" where
  "randint low high g =
     (if high \<le> low then Inl (ValueError ''low >= high'')
      else case rk_interval (nat (high - 1 - low)) g of (r, g') \<Rightarrow> Inr (low + int r, g'))"

text \<open>\<open>rng.randint(0, n, size=m)\<close> for \<open>0 < n\<close>: \<open>m\<close> integers of \<open>[0, n)\<close>.\<close>

fun randints :: "nat \<Rightarrow> nat \<Rightarrow> rng \<Rightarrow> nat list \<times> rng" where
  "randints n 0 g = ([], g)"
| "randints n (Suc m) g =
     (case rk_interval (n - 1) g of (r, g') \<Rightarrow>
        (case randints n m g' of (rs, g'') \<Rightarrow> (r # rs, g'')))"

text \<open>
  \<open>rng.permutation(n)\<close> shuffles \<open>arange(n)\<close> as the library's \<open>shuffle\<close> does:
  \<^verbatim>\<open>for i in reversed(range(1, n)): j = rk_interval(i); x[i], x[j] = x[j], x[i]\<close>
\<close>

fun shuffle_from :: "nat \<Rightarrow> nat list \<Rightarrow> rng \<Rightarrow> nat list \<times> rng" where
  "shuffle_from 0 x g = (x, g)"
| "shuffle_from (Suc k) x g =
     (case rk_interval (Suc k) g of (j, g') \<Rightarrow>
        shuffle_from k (x[Suc k := x ! j, j := x ! Suc k]) g')"

definition permutation :: "nat \<Rightarrow> rng \<Rightarrow> nat list \<times> rng" where
  "permutation n g = shuffle_from (n - 1) [0..<n] g"

subsection \<open>Arrays\<close>

text \<open>
  An array of shape \<open>[N, i, D]\<close> is the list of its \<open>N\<close> rows, each a list of \<open>i\<close>
  evaluations, each a list of \<open>D\<close> values. The two inner extents are stored, as numpy
  stores the shape, so that an array with no rows still has its shape. \<open>wf3\<close> says that
  the rows have the stored extents, which every numpy array does.
\<close>

record 'a array3 =
  evals :: nat
  width :: nat
  rows :: "'a list list list"

record 'a array2 =
  width2 :: nat
  rows2 :: "'a list list"

type_synonym shape = "nat \<times> nat \<times> nat"

definition shape3 :: "'a array3 \<Rightarrow> shape" where
  "shape3 a = (length (rows a), evals a, width a)"

definition shape2 :: "'a array2 \<Rightarrow> nat \<times> nat" where
  "shape2 a = (length (rows2 a), width2 a)"

definition wf3 :: "'a array3 \<Rightarrow> bool" where
  "wf3 a = list_all (\<lambda>r. length r = evals a \<and> list_all (\<lambda>e. length e = width a) r) (rows a)"

text \<open>
  An index array. \<open>np.array\<close> of an empty Python sequence has the dtype \<open>float64\<close>, and
  numpy refuses an array of floats as an index, also an empty one; every other index
  array of the program holds non-negative integers.
\<close>

datatype index_array = Ints "nat list" | EmptyFloats

text \<open>\<open>np.array(a)[idx]\<close> for a Python list \<open>a\<close> of integers and positions \<open>idx\<close> within it.\<close>

definition array_at :: "nat list \<Rightarrow> nat list \<Rightarrow> index_array" where
  "array_at a idx = (if a = [] then EmptyFloats else Ints (map (\<lambda>k. a ! k) idx))"

text \<open>Fancy indexing of the first axis, \<open>A[ind, :, :]\<close>.\<close>

definition take_rows :: "index_array \<Rightarrow> 'a array3 \<Rightarrow> error + 'a array3" where
  "take_rows ind a =
     (case ind of
        EmptyFloats \<Rightarrow> Inl (IndexError ''arrays used as indices must be of integer (or boolean) type'')
      | Ints ks \<Rightarrow>
          if list_ex (\<lambda>k. length (rows a) \<le> k) ks then Inl (IndexError ''index is out of bounds for axis 0'')
          else Inr (a\<lparr>rows := map (\<lambda>k. rows a ! k) ks\<rparr>))"

text \<open>
  \<open>np.take_along_axis(A, choices, axis=1)\<close> for \<open>choices\<close> of shape \<open>[M, 1, 1]\<close>: the result
  has shape \<open>[N, 1, D]\<close> and holds, in row \<open>n\<close>, the evaluation \<open>choices[n]\<close> of row \<open>n\<close>.
  The program calls it with \<open>M = N\<close> only; another \<open>M\<close> does not broadcast unless it is 1.
\<close>

definition take_along_axis1 :: "'a array3 \<Rightarrow> index_array \<Rightarrow> error + 'a array3" where
  "take_along_axis1 a choices =
     (case choices of
        EmptyFloats \<Rightarrow> Inl (IndexError ''indices must be an integer array'')
      | Ints cs \<Rightarrow>
          if length cs \<noteq> length (rows a) then Inl (ValueError ''shape mismatch: objects cannot be broadcast'')
          else if list_ex (\<lambda>c. evals a \<le> c) cs then Inl (IndexError ''index is out of bounds for axis 1'')
          else Inr \<lparr>evals = 1, width = width a, rows = map2 (\<lambda>r c. [r ! c]) (rows a) cs\<rparr>)"

text \<open>\<open>A.reshape((n, d))\<close>: the values in row-major order, regrouped in \<open>n\<close> rows of \<open>d\<close>.\<close>

fun chunks :: "nat \<Rightarrow> nat \<Rightarrow> 'a list \<Rightarrow> 'a list list" where
  "chunks d 0 xs = []"
| "chunks d (Suc n) xs = take d xs # chunks d n (drop d xs)"

definition reshape2 :: "'a array3 \<Rightarrow> nat \<times> nat \<Rightarrow> error + 'a array2" where
  "reshape2 a nd =
     (case nd of (n, d) \<Rightarrow>
        if length (rows a) * evals a * width a \<noteq> n * d then Inl (ValueError ''cannot reshape array'')
        else Inr \<lparr>width2 = d, rows2 = chunks d n (concat (concat (rows a)))\<rparr>)"

subsection \<open>\<open>rng.choice\<close>\<close>

text \<open>
  \<open>rng.choice(a, size=n, replace=False)\<close> for a one-dimensional \<open>a\<close>: the first \<open>n\<close>
  entries of a permutation of the positions of \<open>a\<close>, looked up in \<open>a\<close>.
\<close>

definition choice_without_replacement :: "nat list \<Rightarrow> int \<Rightarrow> rng \<Rightarrow> error + (index_array \<times> rng)" where
  "choice_without_replacement a n g =
     (if length a = 0 \<and> n \<noteq> 0 then Inl (ValueError ''a cannot be empty unless no samples are taken'')
      else if int (length a) < n then
        Inl (ValueError ''Cannot take a larger sample than population when replace=False'')
      else if n < 0 then Inl (ValueError ''negative dimensions are not allowed'')
      else case permutation (length a) g of (p, g') \<Rightarrow>
        Inr (array_at a (take (nat n) p), g'))"

text \<open>\<open>rng.choice(a, size=(m, 1, 1), replace=True)\<close>: \<open>m\<close> entries of \<open>a\<close>, drawn independently.\<close>

definition choice_with_replacement :: "nat list \<Rightarrow> nat \<Rightarrow> rng \<Rightarrow> error + (index_array \<times> rng)" where
  "choice_with_replacement a m g =
     (if length a = 0 \<and> m \<noteq> 0 then Inl (ValueError ''a cannot be empty unless no samples are taken'')
      else case randints (length a) m g of (idx, g') \<Rightarrow>
        Inr (array_at a idx, g'))"

subsection \<open>\<open>exclude_indices\<close>\<close>

text \<open>
  The mask \<open>req_idx\<close> starts all true, is set to false at every given index, and selects
  from \<open>arange(npoints)\<close>.
\<close>

definition exclude_indices :: "nat \<Rightarrow> index_array \<Rightarrow> error + index_array" where
  "exclude_indices npoints indices =
     (let all_idx = [0..<npoints];
          req_idx = replicate npoints True
      in case indices of
           EmptyFloats \<Rightarrow> Inl (IndexError ''arrays used as indices must be of integer (or boolean) type'')
         | Ints ks \<Rightarrow>
             if list_ex (\<lambda>k. npoints \<le> k) ks then Inl (IndexError ''index is out of bounds for axis 0'')
             else Inr (Ints (map fst (filter snd (zip all_idx (fold (\<lambda>k r. r[k := False]) ks req_idx))))))"

subsection \<open>\<open>Data._iterate_dataset_configurations\<close>\<close>

type_synonym 'a dataset = "'a array3 \<times> 'a array3 \<times> 'a array3"

type_synonym 'a split = "'a dataset \<times> 'a dataset \<times> (index_array \<times> index_array) option"

text \<open>
  The generator is created with \<open>train_frac\<close>, \<open>train_size\<close>, \<open>rng\<close> and \<open>return_indices\<close>
  (\<open>ConfNew\<close>); at the \<open>yield\<close> it holds the training size and its own random generator
  (\<open>ConfLoop\<close>); an exception ends it (\<open>ConfDone\<close>). \<open>train_frac\<close> is a rational here and
  \<open>floor(train_frac * N)\<close> is exact, where the source multiplies floats; the class never
  passes a fraction. The body reads the three arrays of the object when it starts; the
  object never assigns them again, so \<open>next\<close> takes them as an argument.
\<close>

datatype conf_gen =
    ConfNew "rat option" "int option" rng_input bool
  | ConfLoop int rng bool
  | ConfDone

definition iterate_dataset_configurations ::
    "rat option \<Rightarrow> int option \<Rightarrow> rng_input \<Rightarrow> bool \<Rightarrow> conf_gen" where
  "iterate_dataset_configurations train_frac train_size r return_indices =
     ConfNew train_frac train_size r return_indices"

text \<open>One pass of the \<open>while (True)\<close> loop, from its head to the \<open>yield\<close>.\<close>

definition conf_draw :: "'a dataset \<Rightarrow> int \<Rightarrow> rng \<Rightarrow> bool \<Rightarrow> error + ('a split \<times> rng)" where
  "conf_draw D train_size g return_indices =
     (case D of (X_full, y_full, meta_full) \<Rightarrow>
        bindE (choice_without_replacement [0..<length (rows X_full)] train_size g) (\<lambda>(train_ind, g').
        bindE (exclude_indices (length (rows X_full)) train_ind) (\<lambda>test_ind.
        bindE (take_rows train_ind X_full) (\<lambda>train_X.
        bindE (take_rows train_ind y_full) (\<lambda>train_y.
        bindE (take_rows train_ind meta_full) (\<lambda>train_meta.
        bindE (take_rows test_ind X_full) (\<lambda>test_X.
        bindE (take_rows test_ind y_full) (\<lambda>test_y.
        bindE (take_rows test_ind meta_full) (\<lambda>test_meta.
          Inr (((train_X, train_y, train_meta), (test_X, test_y, test_meta),
                if return_indices then Some (train_ind, test_ind) else None), g'))))))))))"

fun conf_next :: "env \<Rightarrow> 'a dataset \<Rightarrow> conf_gen \<Rightarrow> error + ('a split \<times> conf_gen)" where
  "conf_next ev D (ConfNew train_frac train_size r return_indices) =
     bindE (as_random_state ev r) (\<lambda>g.
       case train_frac of
         Some f \<Rightarrow>
           bindE (conf_draw D \<lfloor>f * of_nat (length (rows (fst D)))\<rfloor> g return_indices) (\<lambda>(out, g').
             Inr (out, ConfLoop \<lfloor>f * of_nat (length (rows (fst D)))\<rfloor> g' return_indices))
       | None \<Rightarrow>
          (case train_size of
             None \<Rightarrow> Inl (RuntimeError ''Either train_frac or train_size must be provided.'')
           | Some n \<Rightarrow>
               bindE (conf_draw D n g return_indices) (\<lambda>(out, g').
                 Inr (out, ConfLoop n g' return_indices))))"
| "conf_next ev D (ConfLoop n g return_indices) =
     bindE (conf_draw D n g return_indices) (\<lambda>(out, g'). Inr (out, ConfLoop n g' return_indices))"
| "conf_next ev D ConfDone = Inl StopIteration"

subsection \<open>\<open>Data._generate_evaluation_subsets\<close>\<close>

text \<open>
  The generator is created with the dataset (\<open>EvalNew\<close>); at the \<open>yield\<close> it holds the
  dataset and the list \<open>indices\<close> (\<open>EvalLoop\<close>). Every caller passes the \<open>RandomState\<close>
  object \<open>self.rng\<close>, which the generator shares with the \<open>Data\<close> object: \<open>next\<close> takes the
  state of that object and returns it advanced.
\<close>

datatype 'a eval_gen =
    EvalNew "'a dataset"
  | EvalLoop "'a dataset" "nat list"
  | EvalDone

type_synonym 'a subset = "'a array2 \<times> 'a array2 \<times> 'a array2"

definition generate_evaluation_subsets :: "'a dataset \<Rightarrow> 'a eval_gen" where
  "generate_evaluation_subsets dataset = EvalNew dataset"

text \<open>One pass of the \<open>while True\<close> loop, from its head to the \<open>yield\<close>.\<close>

definition eval_draw :: "'a dataset \<Rightarrow> nat list \<Rightarrow> rng \<Rightarrow> error + ('a subset \<times> rng)" where
  "eval_draw D indices g =
     (case D of (X, y, meta) \<Rightarrow>
        (case shape3 X of (N, i, Dx) \<Rightarrow>
           bindE (choice_with_replacement indices (length (rows X)) g) (\<lambda>(choices, g').
           bindE (take_along_axis1 X choices) (\<lambda>ax.
           bindE (reshape2 ax (N, Dx)) (\<lambda>out_X.
           bindE (take_along_axis1 y choices) (\<lambda>ay.
           bindE (reshape2 ay (N, width y)) (\<lambda>out_y.
           bindE (take_along_axis1 meta choices) (\<lambda>am.
           bindE (reshape2 am (N, width meta)) (\<lambda>out_meta.
             Inr ((out_X, out_y, out_meta), g'))))))))))"

fun eval_next :: "'a eval_gen \<Rightarrow> rng \<Rightarrow> error + ('a subset \<times> 'a eval_gen \<times> rng)" where
  "eval_next (EvalNew D) g =
     (case D of (X, y, meta) \<Rightarrow>
        (case shape3 X of (N, i, Dx) \<Rightarrow>
           if \<not> (N = length (rows y) \<and> i = evals y) then Inl (AssertionError (shape3 X) (shape3 y))
           else if \<not> (N = length (rows meta) \<and> i = evals meta) then
             Inl (AssertionError (shape3 X) (shape3 meta))
           else bindE (eval_draw D [0..<i] g) (\<lambda>(out, g'). Inr (out, EvalLoop D [0..<i], g'))))"
| "eval_next (EvalLoop D indices) g =
     bindE (eval_draw D indices g) (\<lambda>(out, g'). Inr (out, EvalLoop D indices, g'))"
| "eval_next EvalDone g = Inl StopIteration"

subsection \<open>The class \<open>Data\<close>\<close>

text \<open>
  An attribute of the object is not there before its first assignment (\<open>Unset\<close>), holds
  Python's \<open>None\<close> (\<open>PyNone\<close>) or holds an array.
\<close>

datatype 'v attr = Unset | PyNone | Arr 'v

record 'a data =
  X_full :: "'a array3"
  y_full :: "'a array3"
  meta_full :: "'a array3"
  rng :: rng
  conf_splits :: "conf_gen option"
  eval_splits :: "'a eval_gen option"
  train_X :: "'a array2 attr"
  train_Y :: "'a array2 attr"
  train_meta :: "'a array2 attr"
  test_X :: "'a array3 attr"
  test_Y :: "'a array3 attr"
  test_meta :: "'a array3 attr"

text \<open>
  \<open>Data.__init__\<close> from line 116 on. The lines before read the three arrays from files and
  map the features through \<open>emukit_map_func\<close>; the model takes the arrays these lines leave
  in \<open>X_full\<close>, \<open>y_full\<close> and \<open>meta_full\<close>. When the caller passes a \<open>RandomState\<close> object, the
  model starts from its state and the caller does not draw from it afterwards.
\<close>

definition init ::
    "env \<Rightarrow> 'a dataset \<Rightarrow> bool \<Rightarrow> bool \<Rightarrow> rng_input \<Rightarrow> int \<Rightarrow> error + 'a data" where
  "init ev D iterate_confs iterate_evals r train_set_multiplier =
     (case D of (X, y, meta) \<Rightarrow>
        bindE (as_random_state ev r) (\<lambda>g0.
        bindE (randint 0 1000000000 g0) (\<lambda>(s, g1).
          let gen = iterate_dataset_configurations None
                      (Some (train_set_multiplier * int (width X))) (RngSeed s) False;
              self = \<lparr>X_full = X, y_full = y, meta_full = meta, rng = g1,
                      conf_splits = Some gen, eval_splits = None,
                      train_X = Unset, train_Y = Unset, train_meta = Unset,
                      test_X = Unset, test_Y = Unset, test_meta = Unset\<rparr>
          in if \<not> iterate_confs then
               bindE (conf_next ev D gen) (\<lambda>((train_set, test_set, ind), gen').
                 let self = self\<lparr>conf_splits := None,
                                  train_X := PyNone, train_Y := PyNone, train_meta := PyNone,
                                  test_X := Arr (fst test_set), test_Y := Arr (fst (snd test_set)),
                                  test_meta := Arr (snd (snd test_set))\<rparr>
                 in if iterate_evals then
                      Inr (self\<lparr>eval_splits := Some (generate_evaluation_subsets train_set)\<rparr>)
                    else
                      bindE (eval_next (generate_evaluation_subsets train_set) (rng self))
                        (\<lambda>((tX, tY, tM), eg, g2).
                           Inr (self\<lparr>rng := g2, train_X := Arr tX, train_Y := Arr tY,
                                      train_meta := Arr tM\<rparr>)))
             else Inr self)))"

text \<open>\<open>Data.update\<close>. An exception leaves the method; the model returns it.\<close>

definition update :: "env \<Rightarrow> 'a data \<Rightarrow> error + 'a data" where
  "update ev self =
     (case eval_splits self of
        Some eg \<Rightarrow>
          bindE (eval_next eg (rng self)) (\<lambda>((tX, tY, tM), eg', g').
            Inr (self\<lparr>rng := g', eval_splits := Some eg',
                       train_X := Arr tX, train_Y := Arr tY, train_meta := Arr tM\<rparr>))
      | None \<Rightarrow>
         (case conf_splits self of
            Some cg \<Rightarrow>
              bindE (conf_next ev (X_full self, y_full self, meta_full self) cg)
                (\<lambda>((train_data, test_data, ind), cg').
              bindE (eval_next (generate_evaluation_subsets train_data) (rng self))
                (\<lambda>((tX, tY, tM), eg, g').
                 Inr (self\<lparr>rng := g', conf_splits := Some cg',
                            train_X := Arr tX, train_Y := Arr tY, train_meta := Arr tM,
                            test_X := Arr (fst test_data), test_Y := Arr (fst (snd test_data)),
                            test_meta := Arr (snd (snd test_data))\<rparr>)))
          | None \<Rightarrow> Inr self))"

text \<open>A sequence of \<open>k\<close> calls of \<open>update\<close>; the first exception ends it.\<close>

fun updates :: "env \<Rightarrow> nat \<Rightarrow> 'a data \<Rightarrow> error + 'a data" where
  "updates ev 0 self = Inr self"
| "updates ev (Suc k) self = bindE (update ev self) (updates ev k)"

text \<open>
  A run of the class: the construction, then \<open>k\<close> calls of \<open>update\<close>. The six attributes
  that the trainer reads are the train and the test arrays.
\<close>

definition run ::
    "env \<Rightarrow> 'a dataset \<Rightarrow> bool \<Rightarrow> bool \<Rightarrow> rng_input \<Rightarrow> int \<Rightarrow> nat \<Rightarrow> error + 'a data" where
  "run ev D iterate_confs iterate_evals r train_set_multiplier k =
     bindE (init ev D iterate_confs iterate_evals r train_set_multiplier) (updates ev k)"

definition arrays ::
    "'a data \<Rightarrow> ('a array2 attr \<times> 'a array2 attr \<times> 'a array2 attr)
               \<times> ('a array3 attr \<times> 'a array3 attr \<times> 'a array3 attr)" where
  "arrays self = ((train_X self, train_Y self, train_meta self),
                  (test_X self, test_Y self, test_meta self))"

section \<open>Notions for the proofs\<close>

subsection \<open>What the draws compute\<close>

text \<open>
  Names for the values of one draw, used to state the lemmas below: the rows of an array
  at a list of indices, the train and test indices of a configuration split as they come
  out of the permutation, the evaluation picked for every row, and the array of the
  picked evaluations. The constructor draws the seed \<open>seed_of g\<close> of the split generator
  from its own generator \<open>g\<close>, which is \<open>after_seed g\<close> afterwards; \<open>conf_rng\<close> is the
  generator that the split generator makes of this seed.
\<close>

definition select_rows :: "nat list \<Rightarrow> 'a array3 \<Rightarrow> 'a array3" where
  "select_rows ks a = a\<lparr>rows := map (\<lambda>k. rows a ! k) ks\<rparr>"

definition train_ind :: "nat \<Rightarrow> int \<Rightarrow> rng \<Rightarrow> nat list" where
  "train_ind N n g = take (nat n) (fst (permutation N g))"

definition test_ind :: "nat \<Rightarrow> int \<Rightarrow> rng \<Rightarrow> nat list" where
  "test_ind N n g = filter (\<lambda>j. j \<notin> set (train_ind N n g)) [0..<N]"

definition pick :: "'a array3 \<Rightarrow> nat list \<Rightarrow> 'a array2" where
  "pick a cs = \<lparr>width2 = width a, rows2 = map2 (\<lambda>r c. r ! c) (rows a) cs\<rparr>"

definition eval_ind :: "'a array3 \<Rightarrow> rng \<Rightarrow> nat list" where
  "eval_ind X g = fst (randints (evals X) (length (rows X)) g)"

definition seed_of :: "rng \<Rightarrow> int" where
  "seed_of g = int (fst (rk_interval 999999999 g))"

definition after_seed :: "rng \<Rightarrow> rng" where
  "after_seed g = snd (rk_interval 999999999 g)"

definition conf_rng :: "env \<Rightarrow> rng \<Rightarrow> rng" where
  "conf_rng ev g0 = seeded ev (nat (seed_of g0))"

subsection \<open>Invariants of the object\<close>



fun seeded_gen :: "conf_gen \<Rightarrow> bool" where
  "seeded_gen (ConfNew tf ts r ret) = (r \<noteq> RngNone)"
| "seeded_gen (ConfLoop n g ret) = True"
| "seeded_gen ConfDone = True"

definition no_entropy :: "'a data \<Rightarrow> bool" where
  "no_entropy d = (case conf_splits d of Some cg \<Rightarrow> seeded_gen cg | None \<Rightarrow> True)"

definition same_but_train :: "'a data \<Rightarrow> 'a data \<Rightarrow> bool" where
  "same_but_train d0 d =
     (X_full d = X_full d0 \<and> y_full d = y_full d0 \<and> meta_full d = meta_full d0
      \<and> conf_splits d = conf_splits d0
      \<and> test_X d = test_X d0 \<and> test_Y d = test_Y d0 \<and> test_meta d = test_meta d0)"

definition live_on :: "'a dataset \<Rightarrow> 'a eval_gen \<Rightarrow> bool" where
  "live_on ts eg = (eg = EvalNew ts \<or> eg = EvalLoop ts [0..<evals (fst ts)])"

fun is_config_error :: "error \<Rightarrow> bool" where
  "is_config_error (RuntimeError msg) = True"
| "is_config_error e = False"

fun has_size :: "conf_gen \<Rightarrow> bool" where
  "has_size (ConfNew tf ts r ret) = (tf \<noteq> None \<or> ts \<noteq> None)"
| "has_size cg = True"

definition sized :: "'a data \<Rightarrow> bool" where
  "sized d = (case conf_splits d of Some cg \<Rightarrow> has_size cg | None \<Rightarrow> True)"

subsection \<open>Example inputs\<close>

text \<open>
  A random generator whose stream of the seed \<open>s\<close> is \<open>s, s + 1, s + 2, \<dots>\<close>, and the
  array of shape \<open>[n, i, d]\<close> with the entry \<open>100 * a + 10 * b + c\<close> at \<open>[a, b, c]\<close>.
\<close>

definition ex_env :: env where
  "ex_env = \<lparr>prng = (\<lambda>s k. s + k), entropy = 7\<rparr>"

definition ex_rng :: rng where
  "ex_rng = \<lparr>raw = (\<lambda>k. k), pos = 0\<rparr>"

definition ex_array :: "nat \<Rightarrow> nat \<Rightarrow> nat \<Rightarrow> nat array3" where
  "ex_array n i d =
     \<lparr>evals = i, width = d,
      rows = map (\<lambda>a. map (\<lambda>b. map (\<lambda>c. 100 * a + 10 * b + c) [0..<d]) [0..<i]) [0..<n]\<rparr>"

section \<open>Lemmas\<close>

subsection \<open>The error monad and the random generator\<close>

lemma bindE_Inl [simp]: "bindE (Inl e) f = Inl e"
  by (simp add: bindE_def)

lemma bindE_Inr [simp]: "bindE (Inr x) f = f x"
  by (simp add: bindE_def)

lemma bindE_eq_Inr: "bindE m f = Inr y \<longleftrightarrow> (\<exists>x. m = Inr x \<and> f x = Inr y)"
  by (cases m) simp_all

lemma rk_interval_le: "fst (rk_interval mx g) \<le> mx"
proof -
  have "raw g (pos g) mod Suc mx < Suc mx" by (rule mod_less_divisor) simp
  then show ?thesis by (simp add: rk_interval_def next_raw_def)
qed

lemma mset_shuffle_from:
  "k < length x \<Longrightarrow> mset (fst (shuffle_from k x g)) = mset x"
proof (induction k arbitrary: x g)
  case 0
  then show ?case by simp
next
  case (Suc k)
  obtain j g' where d: "rk_interval (Suc k) g = (j, g')" by (cases "rk_interval (Suc k) g")
  have "j \<le> Suc k" using rk_interval_le [of "Suc k" g] d by simp
  with Suc.prems have j: "j < length x" by simp
  let ?x = "x[Suc k := x ! j, j := x ! Suc k]"
  have "mset ?x = mset x" using Suc.prems j by (simp add: mset_swap)
  moreover have "mset (fst (shuffle_from k ?x g')) = mset ?x"
    using Suc.prems by (intro Suc.IH) simp
  ultimately show ?case using d by simp
qed

lemma mset_permutation: "mset (fst (permutation n g)) = mset [0..<n]"
proof (cases n)
  case 0
  then show ?thesis by (simp add: permutation_def)
next
  case (Suc m)
  then show ?thesis unfolding permutation_def by (intro mset_shuffle_from) simp
qed

lemma set_permutation: "set (fst (permutation n g)) = {0..<n}"
  using mset_permutation [of n g] by (metis mset_eq_setD set_upt)

lemma length_permutation: "length (fst (permutation n g)) = n"
  using mset_permutation [of n g] by (metis mset_eq_length length_upt diff_zero)

lemma distinct_permutation: "distinct (fst (permutation n g))"
  using mset_permutation [of n g] by (metis mset_eq_imp_distinct_iff distinct_upt)

subsection \<open>\<open>exclude_indices\<close> and fancy indexing\<close>

lemma mask_nth:
  "j < length r \<Longrightarrow> fold (\<lambda>k r. r[k := False]) ks r ! j = (r ! j \<and> j \<notin> set ks)"
proof (induction ks arbitrary: r)
  case Nil
  then show ?case by simp
next
  case (Cons a ks)
  have "fold (\<lambda>k r. r[k := False]) (a # ks) r ! j = fold (\<lambda>k r. r[k := False]) ks (r[a := False]) ! j"
    by simp
  also have "\<dots> = (r[a := False] ! j \<and> j \<notin> set ks)"
    using Cons.prems by (intro Cons.IH) simp
  also have "\<dots> = (r ! j \<and> j \<notin> set (a # ks))"
    using Cons.prems by (cases "a = j") (simp_all add: nth_list_update_neq)
  finally show ?case .
qed

lemma mask_length: "length (fold (\<lambda>k r. r[k := False]) ks r) = length r"
  by (induction ks arbitrary: r) auto

lemma select_by_mask:
  "length m = n \<Longrightarrow> map fst (filter snd (zip [0..<n] m)) = filter (\<lambda>j. m ! j) [0..<n]"
proof (induction m arbitrary: n rule: rev_induct)
  case Nil
  then show ?case by simp
next
  case (snoc b m)
  then obtain n' where n: "n = Suc n'" "length m = n'" by (cases n) auto
  have "filter (\<lambda>j. (m @ [b]) ! j) [0..<n'] = filter (\<lambda>j. m ! j) [0..<n']"
    using n by (intro filter_cong) (auto simp: nth_append)
  then show ?case using n snoc.IH [of n'] by (simp add: nth_append)
qed

lemma exclude_indices_Ints:
  assumes "\<forall>k\<in>set ks. k < n"
  shows "exclude_indices n (Ints ks) = Inr (Ints (filter (\<lambda>j. j \<notin> set ks) [0..<n]))"
proof -
  have a: "\<not> list_ex (\<lambda>k. n \<le> k) ks" using assms by (auto simp: list_ex_iff)
  let ?m = "fold (\<lambda>k r. r[k := False]) ks (replicate n True)"
  have "map fst (filter snd (zip [0..<n] ?m)) = filter (\<lambda>j. ?m ! j) [0..<n]"
    by (rule select_by_mask) (simp add: mask_length)
  also have "\<dots> = filter (\<lambda>j. j \<notin> set ks) [0..<n]"
    by (intro filter_cong) (auto simp: mask_nth)
  finally show ?thesis using a by (simp add: exclude_indices_def)
qed

lemma length_complement:
  assumes "distinct ks" "set ks \<subseteq> {0..<n}"
  shows "length (filter (\<lambda>j. j \<notin> set ks) [0..<n]) = n - length ks"
proof -
  have "distinct (filter (\<lambda>j. j \<notin> set ks) [0..<n])" by simp
  then have "length (filter (\<lambda>j. j \<notin> set ks) [0..<n]) = card (set (filter (\<lambda>j. j \<notin> set ks) [0..<n]))"
    by (rule distinct_card [symmetric])
  also have "set (filter (\<lambda>j. j \<notin> set ks) [0..<n]) = {0..<n} - set ks" by auto
  also have "card ({0..<n} - set ks) = card {0..<n} - card (set ks)"
    using assms by (intro card_Diff_subset) auto
  also have "\<dots> = n - length ks" using assms by (simp add: distinct_card)
  finally show ?thesis .
qed

lemma take_rows_Ints:
  "\<forall>k\<in>set ks. k < length (rows a) \<Longrightarrow>
   take_rows (Ints ks) a = Inr (a\<lparr>rows := map (\<lambda>k. rows a ! k) ks\<rparr>)"
  by (auto simp: take_rows_def list_ex_iff)

lemma take_rows_Inr:
  "take_rows ind a = Inr b \<Longrightarrow>
   \<exists>ks. ind = Ints ks \<and> (\<forall>k\<in>set ks. k < length (rows a)) \<and> b = a\<lparr>rows := map (\<lambda>k. rows a ! k) ks\<rparr>"
  by (auto simp: take_rows_def list_ex_iff split: index_array.splits if_splits)

lemma map_nth_upt: "\<forall>k\<in>set ks. k < n \<Longrightarrow> map (\<lambda>k. [0..<n] ! k) ks = ks"
  by (induction ks) auto

subsection \<open>One draw of the configuration split\<close>

lemma set_train_ind: "set (train_ind N n g) \<subseteq> {0..<N}"
  unfolding train_ind_def using set_take_subset [of "nat n" "fst (permutation N g)"]
  by (simp add: set_permutation)

lemma train_ind_less: "k \<in> set (train_ind N n g) \<Longrightarrow> k < N"
  using set_train_ind [of N n g] by auto

lemma distinct_train_ind: "distinct (train_ind N n g)"
  by (simp add: train_ind_def distinct_permutation)

lemma length_train_ind: "0 \<le> n \<Longrightarrow> n \<le> int N \<Longrightarrow> length (train_ind N n g) = nat n"
  by (simp add: train_ind_def length_permutation)

lemma test_ind_less: "k \<in> set (test_ind N n g) \<Longrightarrow> k < N"
  by (simp add: test_ind_def)

lemma distinct_test_ind: "distinct (test_ind N n g)"
  by (simp add: test_ind_def)

lemma set_test_ind: "set (test_ind N n g) = {0..<N} - set (train_ind N n g)"
  by (auto simp: test_ind_def)

lemma length_test_ind: "0 \<le> n \<Longrightarrow> n \<le> int N \<Longrightarrow> length (test_ind N n g) = N - nat n"
  unfolding test_ind_def
  using length_complement [OF distinct_train_ind set_train_ind, of N n g]
  by (simp add: length_train_ind)

lemma choice_upt:
  "choice_without_replacement [0..<N] n g =
     (if N = 0 \<and> n \<noteq> 0 then Inl (ValueError ''a cannot be empty unless no samples are taken'')
      else if int N < n then
        Inl (ValueError ''Cannot take a larger sample than population when replace=False'')
      else if n < 0 then Inl (ValueError ''negative dimensions are not allowed'')
      else Inr (if N = 0 then EmptyFloats else Ints (train_ind N n g), snd (permutation N g)))"
proof -
  have "map (\<lambda>k. [0..<N] ! k) (train_ind N n g) = train_ind N n g"
    by (rule map_nth_upt) (simp add: train_ind_less)
  then show ?thesis
    by (simp add: choice_without_replacement_def array_at_def train_ind_def case_prod_beta)
qed

lemma choice_empty: "choice_without_replacement [] n g = Inr (ti, g1) \<Longrightarrow> ti = EmptyFloats"
  by (auto simp: choice_without_replacement_def array_at_def case_prod_beta split: if_splits)

lemma take_rows_select:
  "\<forall>k\<in>set ks. k < length (rows a) \<Longrightarrow> take_rows (Ints ks) a = Inr (select_rows ks a)"
  by (simp add: take_rows_Ints select_rows_def)

lemma take_rows_Inr_select:
  "take_rows (Ints ks) a = Inr b \<Longrightarrow> (\<forall>k\<in>set ks. k < length (rows a)) \<and> b = select_rows ks a"
  by (auto simp: select_rows_def dest: take_rows_Inr)

lemma conf_draw_ok:
  assumes "0 < length (rows X)" "0 \<le> n" "n \<le> int (length (rows X))"
    and "length (rows X) \<le> length (rows y)" "length (rows X) \<le> length (rows meta)"
  shows "conf_draw (X, y, meta) n g ret =
     Inr (((select_rows (train_ind (length (rows X)) n g) X,
            select_rows (train_ind (length (rows X)) n g) y,
            select_rows (train_ind (length (rows X)) n g) meta),
           (select_rows (test_ind (length (rows X)) n g) X,
            select_rows (test_ind (length (rows X)) n g) y,
            select_rows (test_ind (length (rows X)) n g) meta),
           if ret then Some (Ints (train_ind (length (rows X)) n g), Ints (test_ind (length (rows X)) n g))
           else None),
          snd (permutation (length (rows X)) g))"
proof -
  let ?N = "length (rows X)"
  have tr: "\<forall>k\<in>set (train_ind ?N n g). k < ?N" by (simp add: train_ind_less)
  have te: "\<forall>k\<in>set (test_ind ?N n g). k < ?N" by (simp add: test_ind_less)
  have ex: "exclude_indices ?N (Ints (train_ind ?N n g)) = Inr (Ints (test_ind ?N n g))"
    using exclude_indices_Ints [OF tr] by (simp add: test_ind_def)
  have t1: "take_rows (Ints (train_ind ?N n g)) X = Inr (select_rows (train_ind ?N n g) X)"
    using tr by (intro take_rows_select) simp
  have t2: "take_rows (Ints (train_ind ?N n g)) y = Inr (select_rows (train_ind ?N n g) y)"
    using tr assms(4) by (intro take_rows_select) auto
  have t3: "take_rows (Ints (train_ind ?N n g)) meta = Inr (select_rows (train_ind ?N n g) meta)"
    using tr assms(5) by (intro take_rows_select) auto
  have t4: "take_rows (Ints (test_ind ?N n g)) X = Inr (select_rows (test_ind ?N n g) X)"
    using te by (intro take_rows_select) simp
  have t5: "take_rows (Ints (test_ind ?N n g)) y = Inr (select_rows (test_ind ?N n g) y)"
    using te assms(4) by (intro take_rows_select) auto
  have t6: "take_rows (Ints (test_ind ?N n g)) meta = Inr (select_rows (test_ind ?N n g) meta)"
    using te assms(5) by (intro take_rows_select) auto
  show ?thesis using assms(1-3) by (simp add: conf_draw_def choice_upt ex t1 t2 t3 t4 t5 t6)
qed

lemma covers_all:
  assumes "0 < N" "0 \<le> n" "n \<le> int N"
    and "\<forall>k\<in>set (train_ind N n g). k < M" "\<forall>k\<in>set (test_ind N n g). k < M"
  shows "N \<le> M"
proof -
  have "N - 1 \<in> {0..<N}" using assms(1) by simp
  then have "N - 1 \<in> set (train_ind N n g) \<or> N - 1 \<in> set (test_ind N n g)"
    by (simp add: set_test_ind)
  then have "N - 1 < M" using assms(4,5) by auto
  then show ?thesis by simp
qed

lemma conf_draw_Inr:
  assumes "conf_draw (X, y, meta) n g ret = Inr (out, g')"
  shows "0 < length (rows X) \<and> 0 \<le> n \<and> n \<le> int (length (rows X))
       \<and> length (rows X) \<le> length (rows y) \<and> length (rows X) \<le> length (rows meta)"
proof -
  let ?N = "length (rows X)"
  from assms obtain ti g1 where
    c: "choice_without_replacement [0..<?N] n g = Inr (ti, g1)"
    by (auto simp: conf_draw_def bindE_eq_Inr)
  then have n: "0 \<le> n" "n \<le> int ?N" by (auto simp: choice_upt split: if_splits)
  have N: "0 < ?N"
  proof (rule ccontr)
    assume "\<not> 0 < ?N"
    then have "ti = EmptyFloats" using c by (auto dest: choice_empty)
    then show False using assms c
      by (auto simp: conf_draw_def bindE_eq_Inr exclude_indices_def)
  qed
  have ti: "ti = Ints (train_ind ?N n g)" using c N by (auto simp: choice_upt split: if_splits)
  have tr: "\<forall>k\<in>set (train_ind ?N n g). k < ?N" by (simp add: train_ind_less)
  have ex: "exclude_indices ?N (Ints (train_ind ?N n g)) = Inr (Ints (test_ind ?N n g))"
    using exclude_indices_Ints [OF tr] by (simp add: test_ind_def)
  from assms c ti ex obtain a b c' d where
    "take_rows (Ints (train_ind ?N n g)) y = Inr a"
    "take_rows (Ints (train_ind ?N n g)) meta = Inr b"
    "take_rows (Ints (test_ind ?N n g)) y = Inr c'"
    "take_rows (Ints (test_ind ?N n g)) meta = Inr d"
    by (auto simp: conf_draw_def bindE_eq_Inr)
  then have "\<forall>k\<in>set (train_ind ?N n g). k < length (rows y)"
    "\<forall>k\<in>set (test_ind ?N n g). k < length (rows y)"
    "\<forall>k\<in>set (train_ind ?N n g). k < length (rows meta)"
    "\<forall>k\<in>set (test_ind ?N n g). k < length (rows meta)"
    by (auto dest: take_rows_Inr_select)
  then have "?N \<le> length (rows y)" "?N \<le> length (rows meta)"
    using covers_all [OF N n] by blast+
  with N n show ?thesis by simp
qed

subsection \<open>One draw of an evaluation subset\<close>

lemma length_randints: "length (fst (randints n m g)) = m"
  by (induction m arbitrary: g) (auto simp: case_prod_beta)

lemma randints_less: "0 < n \<Longrightarrow> c \<in> set (fst (randints n m g)) \<Longrightarrow> c < n"
proof (induction m arbitrary: g)
  case 0
  then show ?case by simp
next
  case (Suc m)
  have "fst (rk_interval (n - 1) g) < n"
    using rk_interval_le [of "n - 1" g] Suc.prems(1) by simp
  with Suc show ?case by (auto simp: case_prod_beta)
qed

lemma length_eval_ind: "length (eval_ind X g) = length (rows X)"
  by (simp add: eval_ind_def length_randints)

lemma eval_ind_less: "0 < evals X \<Longrightarrow> c \<in> set (eval_ind X g) \<Longrightarrow> c < evals X"
  unfolding eval_ind_def by (rule randints_less)

lemma choice_with_replacement_upt:
  "0 < i \<Longrightarrow> choice_with_replacement [0..<i] m g =
     Inr (Ints (fst (randints i m g)), snd (randints i m g))"
proof -
  assume i: "0 < i"
  have "map (\<lambda>k. [0..<i] ! k) (fst (randints i m g)) = fst (randints i m g)"
    using i by (intro map_nth_upt) (auto dest: randints_less)
  then show ?thesis using i
    by (simp add: choice_with_replacement_def array_at_def case_prod_beta)
qed

lemma choice_with_replacement_empty:
  "choice_with_replacement [] m g = Inr (cs, g') \<Longrightarrow> cs = EmptyFloats"
  by (auto simp: choice_with_replacement_def array_at_def case_prod_beta split: if_splits)

lemma take_along_axis1_Ints:
  assumes "length cs = length (rows a)" "\<forall>c\<in>set cs. c < evals a"
  shows "take_along_axis1 a (Ints cs) =
           Inr \<lparr>evals = 1, width = width a, rows = map2 (\<lambda>r c. [r ! c]) (rows a) cs\<rparr>"
proof -
  have "\<not> list_ex (\<lambda>c. evals a \<le> c) cs" using assms(2) by (auto simp: list_ex_iff)
  then show ?thesis using assms(1) by (simp add: take_along_axis1_def)
qed

lemma chunks_concat:
  "\<forall>x\<in>set xss. length x = d \<Longrightarrow> chunks d (length xss) (concat xss) = xss"
  by (induction xss) auto

lemma concat_singletons: "concat (map (\<lambda>z. [h z]) zs) = map h zs"
  by (induction zs) auto

lemma wf3_nth:
  assumes "wf3 a" "r \<in> set (rows a)" "c < evals a"
  shows "length (r ! c) = width a"
proof -
  from assms(1,2) have "length r = evals a" "\<forall>e\<in>set r. length e = width a"
    by (auto simp: wf3_def list_all_iff)
  with assms(3) show ?thesis by simp
qed

lemma reshape2_picked:
  assumes "wf3 a" "length cs = length (rows a)" "\<forall>c\<in>set cs. c < evals a"
  shows "reshape2 \<lparr>evals = 1, width = width a, rows = map2 (\<lambda>r c. [r ! c]) (rows a) cs\<rparr>
           (length (rows a), width a) = Inr (pick a cs)"
proof -
  let ?p = "map2 (\<lambda>r c. r ! c) (rows a) cs"
  have "map2 (\<lambda>r c. [r ! c]) (rows a) cs = map (\<lambda>z. [(\<lambda>(r, c). r ! c) z]) (zip (rows a) cs)"
    by (simp add: case_prod_beta)
  then have c: "concat (map2 (\<lambda>r c. [r ! c]) (rows a) cs) = ?p"
    by (simp only: concat_singletons)
  have l: "length ?p = length (rows a)" using assms(2) by simp
  have "\<forall>x\<in>set ?p. length x = width a"
  proof
    fix x assume "x \<in> set ?p"
    then obtain r c where rc: "(r, c) \<in> set (zip (rows a) cs)" "x = r ! c" by auto
    then have "r \<in> set (rows a)" "c \<in> set cs"
      by (auto dest: set_zip_leftD set_zip_rightD)
    then show "length x = width a" using assms(1,3) rc(2) by (simp add: wf3_nth)
  qed
  then have "chunks (width a) (length ?p) (concat ?p) = ?p" by (rule chunks_concat)
  then have "chunks (width a) (length (rows a)) (concat ?p) = ?p" using l by simp
  then show ?thesis using assms(2) by (simp add: reshape2_def pick_def c)
qed

lemma eval_draw_ok:
  assumes "wf3 X" "wf3 y" "wf3 meta"
    and "length (rows y) = length (rows X)" "length (rows meta) = length (rows X)"
    and "evals y = evals X" "evals meta = evals X" "0 < evals X"
  shows "eval_draw (X, y, meta) [0..<evals X] g =
           Inr ((pick X (eval_ind X g), pick y (eval_ind X g), pick meta (eval_ind X g)),
                snd (randints (evals X) (length (rows X)) g))"
proof -
  let ?cs = "eval_ind X g"
  have c: "choice_with_replacement [0..<evals X] (length (rows X)) g =
             Inr (Ints ?cs, snd (randints (evals X) (length (rows X)) g))"
    using assms(8) by (simp add: choice_with_replacement_upt eval_ind_def)
  have lX: "length ?cs = length (rows X)" by (rule length_eval_ind)
  have bX: "\<forall>c\<in>set ?cs. c < evals X" using assms(8) by (auto dest: eval_ind_less)
  have ly: "length ?cs = length (rows y)" using lX assms(4) by simp
  have by': "\<forall>c\<in>set ?cs. c < evals y" using bX assms(6) by simp
  have lm: "length ?cs = length (rows meta)" using lX assms(5) by simp
  have bm: "\<forall>c\<in>set ?cs. c < evals meta" using bX assms(7) by simp
  note t = take_along_axis1_Ints [OF lX bX] take_along_axis1_Ints [OF ly by']
    take_along_axis1_Ints [OF lm bm]
  note r = reshape2_picked [OF assms(1) lX bX] reshape2_picked [OF assms(2) ly by']
    reshape2_picked [OF assms(3) lm bm]
  show ?thesis using assms(4,5) r by (simp add: eval_draw_def shape3_def c t)
qed

lemma eval_draw_no_evals:
  assumes "evals X = 0"
  shows "isl (eval_draw (X, y, meta) [] g)"
proof (cases "length (rows X) = 0")
  case True
  then have "choice_with_replacement [] (length (rows X)) g = Inr (EmptyFloats, g)"
    by (simp add: choice_with_replacement_def array_at_def)
  then show ?thesis by (simp add: eval_draw_def shape3_def take_along_axis1_def)
next
  case False
  then have "isl (choice_with_replacement [] (length (rows X)) g)"
    by (simp add: choice_with_replacement_def)
  then show ?thesis by (auto simp: eval_draw_def shape3_def isl_def)
qed

subsection \<open>The example inputs\<close>

lemma ex_array_shape [simp]:
  "length (rows (ex_array n i d)) = n" "evals (ex_array n i d) = i" "width (ex_array n i d) = d"
  by (simp_all add: ex_array_def)

lemma wf3_ex_array [simp]: "wf3 (ex_array n i d)"
  by (simp add: wf3_def ex_array_def list_all_iff)

lemma ex_env_seed [simp]: "0 \<le> s \<Longrightarrow> s < 2 ^ 32 \<Longrightarrow> as_random_state ex_env (RngSeed s) = Inr (seeded ex_env (nat s))"
  by (simp add: as_random_state_def)

subsection \<open>The evaluation-subset generator\<close>

lemma shape2_pick: "length cs = length (rows a) \<Longrightarrow> shape2 (pick a cs) = (length (rows a), width a)"
  by (simp add: shape2_def pick_def)

lemma rows2_pick:
  "length cs = length (rows a) \<Longrightarrow> m < length (rows a) \<Longrightarrow>
   rows2 (pick a cs) ! m = rows a ! m ! (cs ! m)"
  by (simp add: pick_def)

lemma eval_next_new_ok:
  assumes "wf3 X" "wf3 y" "wf3 meta"
    and "length (rows y) = length (rows X)" "length (rows meta) = length (rows X)"
    and "evals y = evals X" "evals meta = evals X" "0 < evals X"
  shows "eval_next (EvalNew (X, y, meta)) g =
           Inr ((pick X (eval_ind X g), pick y (eval_ind X g), pick meta (eval_ind X g)),
                EvalLoop (X, y, meta) [0..<evals X],
                snd (randints (evals X) (length (rows X)) g))"
  using assms(4-7) by (simp add: shape3_def eval_draw_ok [OF assms])

lemma eval_next_loop_ok:
  assumes "wf3 X" "wf3 y" "wf3 meta"
    and "length (rows y) = length (rows X)" "length (rows meta) = length (rows X)"
    and "evals y = evals X" "evals meta = evals X" "0 < evals X"
  shows "eval_next (EvalLoop (X, y, meta) [0..<evals X]) g =
           Inr ((pick X (eval_ind X g), pick y (eval_ind X g), pick meta (eval_ind X g)),
                EvalLoop (X, y, meta) [0..<evals X],
                snd (randints (evals X) (length (rows X)) g))"
  by (simp add: eval_draw_ok [OF assms])

lemma eval_next_no_evals:
  assumes "evals X = 0"
  shows "isl (eval_next (EvalNew (X, y, meta)) g)" "isl (eval_next (EvalLoop (X, y, meta) []) g)"
proof -
  from eval_draw_no_evals [OF assms, of y meta g]
  obtain e where e: "eval_draw (X, y, meta) [] g = Inl e" by (auto simp: isl_def)
  show "isl (eval_next (EvalNew (X, y, meta)) g)" using assms e by (simp add: shape3_def)
  show "isl (eval_next (EvalLoop (X, y, meta) []) g)" using e by simp
qed

subsection \<open>Seeds, shapes and the configuration-split generator\<close>

lemma randint_seed: "randint 0 1000000000 g = Inr (seed_of g, after_seed g)"
  by (simp add: randint_def seed_of_def after_seed_def case_prod_beta)

lemma seed_of_range: "0 \<le> seed_of g" "seed_of g < 1000000000" "seed_of g < 2 ^ 32"
proof -
  have "fst (rk_interval 999999999 g) \<le> 999999999" by (rule rk_interval_le)
  then show "seed_of g < 1000000000" by (simp add: seed_of_def)
  then show "seed_of g < 2 ^ 32" by simp
  show "0 \<le> seed_of g" by (simp add: seed_of_def)
qed



lemma take_along_axis1_width: "take_along_axis1 a cs = Inr b \<Longrightarrow> width b = width a"
  by (auto simp: take_along_axis1_def split: index_array.splits if_splits)





subsection \<open>The constructor, and \<open>update\<close> in full iteration\<close>

lemma updates_snoc: "updates ev (Suc k) d = bindE (updates ev k d) (update ev)"
proof (induction k arbitrary: d)
  case 0
  show ?case by (cases "update ev d") simp_all
next
  case (Suc k)
  show ?case
  proof (cases "update ev d")
    case (Inl e)
    then show ?thesis by simp
  next
    case (Inr d')
    then show ?thesis using Suc.IH [of d'] by simp
  qed
qed

lemma init_iterating:
  "init ev (X, y, meta) True ie r m =
     bindE (as_random_state ev r) (\<lambda>g0.
       Inr \<lparr>X_full = X, y_full = y, meta_full = meta, rng = after_seed g0,
            conf_splits = Some (ConfNew None (Some (m * int (width X))) (RngSeed (seed_of g0)) False),
            eval_splits = None,
            train_X = Unset, train_Y = Unset, train_meta = Unset,
            test_X = Unset, test_Y = Unset, test_meta = Unset\<rparr>)"
  by (cases "as_random_state ev r")
     (simp_all add: init_def randint_seed iterate_dataset_configurations_def)

lemma init_static:
  "init ev (X, y, meta) False ie r m =
     bindE (as_random_state ev r) (\<lambda>g0.
     bindE (conf_draw (X, y, meta) (m * int (width X)) (seeded ev (nat (seed_of g0))) False)
       (\<lambda>((train_set, test_set, ind), g').
          if ie then
            Inr \<lparr>X_full = X, y_full = y, meta_full = meta, rng = after_seed g0,
                 conf_splits = None, eval_splits = Some (EvalNew train_set),
                 train_X = PyNone, train_Y = PyNone, train_meta = PyNone,
                 test_X = Arr (fst test_set), test_Y = Arr (fst (snd test_set)),
                 test_meta = Arr (snd (snd test_set))\<rparr>
          else
            bindE (eval_next (EvalNew train_set) (after_seed g0)) (\<lambda>((tX, tY, tM), eg, g2).
              Inr \<lparr>X_full = X, y_full = y, meta_full = meta, rng = g2,
                   conf_splits = None, eval_splits = None,
                   train_X = Arr tX, train_Y = Arr tY, train_meta = Arr tM,
                   test_X = Arr (fst test_set), test_Y = Arr (fst (snd test_set)),
                   test_meta = Arr (snd (snd test_set))\<rparr>)))"
proof (cases "as_random_state ev r")
  case (Inl e)
  then show ?thesis by (simp add: init_def)
next
  case (Inr g0)
  let ?n = "m * int (width X)"
  have s: "as_random_state ev (RngSeed (seed_of g0)) = Inr (seeded ev (nat (seed_of g0)))"
    using seed_of_range [of g0] by (simp add: as_random_state_def)
  show ?thesis
  proof (cases "conf_draw (X, y, meta) ?n (seeded ev (nat (seed_of g0))) False")
    case (Inl e)
    then show ?thesis using Inr s
      by (simp add: init_def randint_seed iterate_dataset_configurations_def)
  next
    case draw: (Inr res)
    obtain tr te ind g' where res: "res = ((tr, te, ind), g')" by (metis prod.exhaust)
    show ?thesis
    proof (cases "eval_next (EvalNew tr) (after_seed g0)")
      case (Inl e)
      then show ?thesis using Inr s draw res
        by (simp add: init_def randint_seed iterate_dataset_configurations_def
            generate_evaluation_subsets_def del: eval_next.simps)
    next
      case ev: (Inr res2)
      obtain tX tY tM eg g2 where res2: "res2 = ((tX, tY, tM), eg, g2)" by (metis prod.exhaust)
      show ?thesis using Inr s draw res ev res2
        by (simp add: init_def randint_seed iterate_dataset_configurations_def
            generate_evaluation_subsets_def del: eval_next.simps)
    qed
  qed
qed





lemma select_rows_shape [simp]:
  "length (rows (select_rows ks a)) = length ks" "evals (select_rows ks a) = evals a"
  "width (select_rows ks a) = width a"
  by (simp_all add: select_rows_def)

lemma shape3_select_rows: "shape3 (select_rows ks a) = (length ks, evals a, width a)"
  by (simp add: shape3_def)

lemma wf3_select_rows:
  "wf3 a \<Longrightarrow> \<forall>k\<in>set ks. k < length (rows a) \<Longrightarrow> wf3 (select_rows ks a)"
  by (auto simp: wf3_def select_rows_def list_all_iff)




subsection \<open>Failing split draws, and the constructor in the static modes\<close>

lemma bindE_eq_Inl: "bindE m f = Inl e \<longleftrightarrow> m = Inl e \<or> (\<exists>x. m = Inr x \<and> f x = Inl e)"
  by (cases m) simp_all





lemma init_static_Inr:
  assumes "init ev (X, y, meta) False ie r m = Inr d"
  obtains g0 where "as_random_state ev r = Inr g0"
    "0 < length (rows X)" "0 \<le> m * int (width X)" "m * int (width X) \<le> int (length (rows X))"
    "length (rows X) \<le> length (rows y)" "length (rows X) \<le> length (rows meta)"
    "ie \<Longrightarrow> d =
       \<lparr>X_full = X, y_full = y, meta_full = meta, rng = after_seed g0,
        conf_splits = None,
        eval_splits = Some (EvalNew
          (select_rows (train_ind (length (rows X)) (m * int (width X)) (conf_rng ev g0)) X,
           select_rows (train_ind (length (rows X)) (m * int (width X)) (conf_rng ev g0)) y,
           select_rows (train_ind (length (rows X)) (m * int (width X)) (conf_rng ev g0)) meta)),
        train_X = PyNone, train_Y = PyNone, train_meta = PyNone,
        test_X = Arr (select_rows (test_ind (length (rows X)) (m * int (width X)) (conf_rng ev g0)) X),
        test_Y = Arr (select_rows (test_ind (length (rows X)) (m * int (width X)) (conf_rng ev g0)) y),
        test_meta = Arr (select_rows (test_ind (length (rows X)) (m * int (width X)) (conf_rng ev g0)) meta)\<rparr>"
    "\<not> ie \<Longrightarrow> \<exists>tX tY tM eg g2.
       eval_next (EvalNew
          (select_rows (train_ind (length (rows X)) (m * int (width X)) (conf_rng ev g0)) X,
           select_rows (train_ind (length (rows X)) (m * int (width X)) (conf_rng ev g0)) y,
           select_rows (train_ind (length (rows X)) (m * int (width X)) (conf_rng ev g0)) meta))
         (after_seed g0) = Inr ((tX, tY, tM), eg, g2)
     \<and> d =
       \<lparr>X_full = X, y_full = y, meta_full = meta, rng = g2,
        conf_splits = None, eval_splits = None,
        train_X = Arr tX, train_Y = Arr tY, train_meta = Arr tM,
        test_X = Arr (select_rows (test_ind (length (rows X)) (m * int (width X)) (conf_rng ev g0)) X),
        test_Y = Arr (select_rows (test_ind (length (rows X)) (m * int (width X)) (conf_rng ev g0)) y),
        test_meta = Arr (select_rows (test_ind (length (rows X)) (m * int (width X)) (conf_rng ev g0)) meta)\<rparr>"
proof -
  let ?n = "m * int (width X)" and ?N = "length (rows X)"
  from assms obtain g0 out g' where
    g0: "as_random_state ev r = Inr g0"
    and dr: "conf_draw (X, y, meta) ?n (conf_rng ev g0) False = Inr (out, g')"
    by (auto simp: init_static bindE_eq_Inr conf_rng_def)
  note ok = conf_draw_Inr [OF dr]
  let ?ti = "train_ind ?N ?n (conf_rng ev g0)" and ?si = "test_ind ?N ?n (conf_rng ev g0)"
  have dr': "conf_draw (X, y, meta) ?n (seeded ev (nat (seed_of g0))) False =
     Inr (((select_rows ?ti X, select_rows ?ti y, select_rows ?ti meta),
           (select_rows ?si X, select_rows ?si y, select_rows ?si meta), None),
          snd (permutation ?N (conf_rng ev g0)))"
    using ok conf_draw_ok [of X ?n y meta "conf_rng ev g0" False] by (simp add: conf_rng_def)
  have a: "ie \<Longrightarrow> d =
       \<lparr>X_full = X, y_full = y, meta_full = meta, rng = after_seed g0,
        conf_splits = None,
        eval_splits = Some (EvalNew (select_rows ?ti X, select_rows ?ti y, select_rows ?ti meta)),
        train_X = PyNone, train_Y = PyNone, train_meta = PyNone,
        test_X = Arr (select_rows ?si X), test_Y = Arr (select_rows ?si y),
        test_meta = Arr (select_rows ?si meta)\<rparr>"
    using assms g0 dr' by (simp add: init_static)
  have b: "\<not> ie \<Longrightarrow> \<exists>tX tY tM eg g2.
       eval_next (EvalNew (select_rows ?ti X, select_rows ?ti y, select_rows ?ti meta))
         (after_seed g0) = Inr ((tX, tY, tM), eg, g2)
     \<and> d =
       \<lparr>X_full = X, y_full = y, meta_full = meta, rng = g2,
        conf_splits = None, eval_splits = None,
        train_X = Arr tX, train_Y = Arr tY, train_meta = Arr tM,
        test_X = Arr (select_rows ?si X), test_Y = Arr (select_rows ?si y),
        test_meta = Arr (select_rows ?si meta)\<rparr>"
    using assms g0 dr'
    by (auto simp: init_static bindE_eq_Inr simp del: eval_next.simps)
  show thesis using that [OF g0] ok a b by blast
qed

lemma init_static_ok:
  assumes "as_random_state ev r = Inr g0"
    and "wf3 X" "wf3 y" "wf3 meta"
    and "length (rows X) \<le> length (rows y)" "length (rows X) \<le> length (rows meta)"
    and "evals y = evals X" "evals meta = evals X" "0 < evals X"
    and "0 < length (rows X)" "0 \<le> m * int (width X)" "m * int (width X) \<le> int (length (rows X))"
  shows "\<exists>d. init ev (X, y, meta) False ie r m = Inr d"
proof -
  let ?n = "m * int (width X)" and ?N = "length (rows X)"
  let ?ti = "train_ind ?N ?n (conf_rng ev g0)" and ?si = "test_ind ?N ?n (conf_rng ev g0)"
  have dr: "conf_draw (X, y, meta) ?n (seeded ev (nat (seed_of g0))) False =
     Inr (((select_rows ?ti X, select_rows ?ti y, select_rows ?ti meta),
           (select_rows ?si X, select_rows ?si y, select_rows ?si meta), None),
          snd (permutation ?N (conf_rng ev g0)))"
    using assms(5,6,10-12) conf_draw_ok [of X ?n y meta "conf_rng ev g0" False]
    by (simp add: conf_rng_def)
  have b: "\<forall>k\<in>set ?ti. k < length (rows X)" "\<forall>k\<in>set ?ti. k < length (rows y)"
    "\<forall>k\<in>set ?ti. k < length (rows meta)"
    using assms(5,6) by (auto dest: train_ind_less)
  have "eval_next (EvalNew (select_rows ?ti X, select_rows ?ti y, select_rows ?ti meta)) (after_seed g0)
      = Inr ((pick (select_rows ?ti X) (eval_ind (select_rows ?ti X) (after_seed g0)),
              pick (select_rows ?ti y) (eval_ind (select_rows ?ti X) (after_seed g0)),
              pick (select_rows ?ti meta) (eval_ind (select_rows ?ti X) (after_seed g0))),
             EvalLoop (select_rows ?ti X, select_rows ?ti y, select_rows ?ti meta)
               [0..<evals (select_rows ?ti X)],
             snd (randints (evals (select_rows ?ti X)) (length (rows (select_rows ?ti X)))
                    (after_seed g0)))"
    using assms(7-9)
    by (intro eval_next_new_ok wf3_select_rows assms(2-4) b) simp_all
  then show ?thesis using assms(1) dr
    by (simp add: init_static del: eval_next.simps)
qed

subsection \<open>Slices that disagree\<close>



subsection \<open>Independence of the seed of the operating system\<close>

lemma seeded_entropy [simp]: "seeded (ev\<lparr>entropy := e\<rparr>) s = seeded ev s"
  by (simp add: seeded_def)

lemma conf_rng_entropy [simp]: "conf_rng (ev\<lparr>entropy := e\<rparr>) g = conf_rng ev g"
  by (simp add: conf_rng_def)

lemma as_random_state_entropy:
  "r \<noteq> RngNone \<Longrightarrow> as_random_state (ev\<lparr>entropy := e\<rparr>) r = as_random_state ev r"
  by (cases r) (simp_all add: as_random_state_def)

lemma conf_next_entropy_seeded:
  "seeded_gen cg \<Longrightarrow> conf_next (ev\<lparr>entropy := e\<rparr>) D cg = conf_next ev D cg"
  by (cases cg) (simp_all add: as_random_state_entropy)

lemma conf_next_seeded_gen: "conf_next ev D cg = Inr (out, cg') \<Longrightarrow> seeded_gen cg'"
  by (cases cg) (auto simp: bindE_eq_Inr split: option.splits)

lemma update_entropy: "no_entropy d \<Longrightarrow> update (ev\<lparr>entropy := e\<rparr>) d = update ev d"
  by (auto simp: update_def no_entropy_def conf_next_entropy_seeded split: option.splits)

lemma update_no_entropy: "no_entropy d \<Longrightarrow> update ev d = Inr d' \<Longrightarrow> no_entropy d'"
  by (auto simp: update_def no_entropy_def bindE_eq_Inr simp del: eval_next.simps
      split: option.splits dest: conf_next_seeded_gen)

lemma updates_entropy: "no_entropy d \<Longrightarrow> updates (ev\<lparr>entropy := e\<rparr>) k d = updates ev k d"
proof (induction k arbitrary: d)
  case 0
  show ?case by simp
next
  case (Suc k)
  show ?case
  proof (cases "update ev d")
    case (Inl e)
    then show ?thesis using Suc.prems by (simp add: update_entropy)
  next
    case (Inr d')
    then have "no_entropy d'" using Suc.prems by (auto dest: update_no_entropy)
    then show ?thesis using Inr Suc.prems Suc.IH [of d'] by (simp add: update_entropy)
  qed
qed

lemma init_no_entropy: "init ev D ic ie r m = Inr d \<Longrightarrow> no_entropy d"
proof -
  assume a: "init ev D ic ie r m = Inr d"
  obtain X y meta where D: "D = (X, y, meta)" by (metis prod.exhaust)
  show ?thesis
  proof (cases ic)
    case True
    with a D show ?thesis by (auto simp: init_iterating bindE_eq_Inr no_entropy_def)
  next
    case False
    with a D have "conf_splits d = None"
      by (auto simp: init_static bindE_eq_Inr simp del: eval_next.simps split: if_splits)
    then show ?thesis by (simp add: no_entropy_def)
  qed
qed

lemma init_entropy:
  "r \<noteq> RngNone \<Longrightarrow> init (ev\<lparr>entropy := e\<rparr>) D ic ie r m = init ev D ic ie r m"
proof -
  assume r: "r \<noteq> RngNone"
  obtain X y meta where D: "D = (X, y, meta)" by (metis prod.exhaust)
  show ?thesis
  proof (cases ic)
    case True
    then show ?thesis using r D by (simp add: init_iterating as_random_state_entropy)
  next
    case False
    then show ?thesis using r D
      by (simp add: init_static as_random_state_entropy conf_rng_def [symmetric])
  qed
qed

subsection \<open>\<open>update\<close> in the static modes\<close>

lemma update_fixed: "eval_splits d = None \<Longrightarrow> conf_splits d = None \<Longrightarrow> update ev d = Inr d"
  by (simp add: update_def)

lemma updates_fixed: "eval_splits d = None \<Longrightarrow> conf_splits d = None \<Longrightarrow> updates ev k d = Inr d"
  by (induction k) (simp_all add: update_fixed)

lemma eval_next_live:
  assumes "live_on ts eg" "eval_next eg g = Inr (out, eg', g')"
  shows "eval_draw ts [0..<evals (fst ts)] g = Inr (out, g')"
    "eg' = EvalLoop ts [0..<evals (fst ts)]"
proof -
  obtain X y meta where ts: "ts = (X, y, meta)" by (metis prod.exhaust)
  from assms(1) consider "eg = EvalNew (X, y, meta)" | "eg = EvalLoop (X, y, meta) [0..<evals X]"
    by (auto simp: live_on_def ts)
  then have "eval_draw ts [0..<evals (fst ts)] g = Inr (out, g')
      \<and> eg' = EvalLoop ts [0..<evals (fst ts)]"
  proof cases
    case 1
    with assms(2) show ?thesis
      by (auto simp: ts shape3_def bindE_eq_Inr split: if_splits)
  next
    case 2
    with assms(2) show ?thesis by (auto simp: ts bindE_eq_Inr)
  qed
  then show "eval_draw ts [0..<evals (fst ts)] g = Inr (out, g')"
    "eg' = EvalLoop ts [0..<evals (fst ts)]" by simp_all
qed

lemma update_evals:
  assumes "eval_splits d = Some eg" "live_on ts eg" "update ev d = Inr d'"
  shows "same_but_train d d'" "eval_splits d' = Some (EvalLoop ts [0..<evals (fst ts)])"
    "\<exists>tX tY tM. eval_draw ts [0..<evals (fst ts)] (rng d) = Inr ((tX, tY, tM), rng d')
        \<and> train_X d' = Arr tX \<and> train_Y d' = Arr tY \<and> train_meta d' = Arr tM"
proof -
  from assms(1,3) obtain tX tY tM eg' g' where
    n: "eval_next eg (rng d) = Inr ((tX, tY, tM), eg', g')"
    and d': "d' = d\<lparr>rng := g', eval_splits := Some eg',
                   train_X := Arr tX, train_Y := Arr tY, train_meta := Arr tM\<rparr>"
    by (auto simp: update_def bindE_eq_Inr simp del: eval_next.simps)
  note l = eval_next_live [OF assms(2) n]
  show "same_but_train d d'" by (simp add: d' same_but_train_def)
  show "eval_splits d' = Some (EvalLoop ts [0..<evals (fst ts)])" by (simp add: d' l(2))
  show "\<exists>tX tY tM. eval_draw ts [0..<evals (fst ts)] (rng d) = Inr ((tX, tY, tM), rng d')
        \<and> train_X d' = Arr tX \<and> train_Y d' = Arr tY \<and> train_meta d' = Arr tM"
    using l(1) by (simp add: d')
qed

lemma same_but_train_trans:
  "same_but_train a b \<Longrightarrow> same_but_train b c \<Longrightarrow> same_but_train a c"
  by (simp add: same_but_train_def)

lemma updates_evals:
  assumes "eval_splits d = Some eg" "live_on ts eg" "updates ev k d = Inr d'"
  shows "same_but_train d d' \<and> (\<exists>eg'. eval_splits d' = Some eg' \<and> live_on ts eg')"
  using assms
proof (induction k arbitrary: d eg)
  case 0
  then show ?case by (simp add: same_but_train_def)
next
  case (Suc k)
  from Suc.prems(3) obtain d1 where u: "update ev d = Inr d1" and r: "updates ev k d1 = Inr d'"
    by (auto simp: bindE_eq_Inr)
  note s = update_evals(1,2) [OF Suc.prems(1,2) u]
  have "live_on ts (EvalLoop ts [0..<evals (fst ts)])" by (simp add: live_on_def)
  from Suc.IH [OF s(2) this r] s(1) show ?case by (blast intro: same_but_train_trans)
qed

lemma update_evals_ok:
  assumes "wf3 X" "wf3 y" "wf3 meta"
    and "length (rows y) = length (rows X)" "length (rows meta) = length (rows X)"
    and "evals y = evals X" "evals meta = evals X" "0 < evals X"
    and "eval_splits d = Some eg" "live_on (X, y, meta) eg"
  shows "\<exists>d'. update ev d = Inr d'"
proof -
  from assms(10) consider "eg = EvalNew (X, y, meta)" | "eg = EvalLoop (X, y, meta) [0..<evals X]"
    by (auto simp: live_on_def)
  then have "\<exists>out eg' g'. eval_next eg (rng d) = Inr (out, eg', g')"
  proof cases
    case 1
    then show ?thesis using eval_next_new_ok [OF assms(1-8), of "rng d"] by simp
  next
    case 2
    then show ?thesis using eval_next_loop_ok [OF assms(1-8), of "rng d"] by simp
  qed
  then obtain tX tY tM eg' g' where "eval_next eg (rng d) = Inr ((tX, tY, tM), eg', g')"
    by (metis prod.exhaust)
  then show ?thesis using assms(9) by (simp add: update_def del: eval_next.simps)
qed

lemma updates_evals_ok:
  assumes "wf3 X" "wf3 y" "wf3 meta"
    and "length (rows y) = length (rows X)" "length (rows meta) = length (rows X)"
    and "evals y = evals X" "evals meta = evals X" "0 < evals X"
  shows "eval_splits d = Some eg \<Longrightarrow> live_on (X, y, meta) eg \<Longrightarrow> \<exists>d'. updates ev k d = Inr d'"
proof (induction k arbitrary: d eg)
  case 0
  show ?case by simp
next
  case (Suc k)
  from update_evals_ok [OF assms Suc.prems] obtain d1 where u: "update ev d = Inr d1" by blast
  have "eval_splits d1 = Some (EvalLoop (X, y, meta) [0..<evals (fst (X, y, meta))])"
    using Suc.prems u by (rule update_evals(2))
  moreover have "live_on (X, y, meta) (EvalLoop (X, y, meta) [0..<evals (fst (X, y, meta))])"
    by (simp add: live_on_def)
  ultimately obtain d' where "updates ev k d1 = Inr d'" using Suc.IH by blast
  then show ?case using u by simp
qed

subsection \<open>The errors of a run\<close>

lemma as_random_state_error: "as_random_state ev r = Inl e \<Longrightarrow> \<not> is_config_error e"
  by (auto simp: as_random_state_def split: rng_input.splits if_splits)

lemma conf_draw_error: "conf_draw D n g ret = Inl e \<Longrightarrow> \<not> is_config_error e"
proof -
  assume a: "conf_draw D n g ret = Inl e"
  obtain X y meta where D: "D = (X, y, meta)" by (metis prod.exhaust)
  have t: "take_rows ind b = Inl e \<Longrightarrow> \<not> is_config_error e" for ind and b :: "'a array3"
    by (auto simp: take_rows_def split: index_array.splits if_splits)
  have x: "exclude_indices k ind = Inl e \<Longrightarrow> \<not> is_config_error e" for k ind
    by (auto simp: exclude_indices_def split: index_array.splits if_splits)
  have c: "choice_without_replacement xs n g = Inl e \<Longrightarrow> \<not> is_config_error e" for xs
    by (auto simp: choice_without_replacement_def case_prod_beta split: if_splits)
  from a show ?thesis unfolding D conf_draw_def
    by (auto simp: bindE_eq_Inl dest: t x c)
qed

lemma conf_next_error:
  "has_size cg \<Longrightarrow> conf_next ev D cg = Inl e \<Longrightarrow> \<not> is_config_error e"
  by (cases cg)
     (auto simp: bindE_eq_Inl split: option.splits dest: as_random_state_error conf_draw_error)

lemma eval_draw_error: "eval_draw D ind g = Inl e \<Longrightarrow> \<not> is_config_error e"
proof -
  assume a: "eval_draw D ind g = Inl e"
  obtain X y meta where D: "D = (X, y, meta)" by (metis prod.exhaust)
  have t: "take_along_axis1 b cs = Inl e \<Longrightarrow> \<not> is_config_error e" for cs and b :: "'a array3"
    by (auto simp: take_along_axis1_def split: index_array.splits if_splits)
  have r: "reshape2 b nd = Inl e \<Longrightarrow> \<not> is_config_error e" for nd and b :: "'a array3"
    by (auto simp: reshape2_def split: prod.splits if_splits)
  have c: "choice_with_replacement xs k g = Inl e \<Longrightarrow> \<not> is_config_error e" for xs k
    by (auto simp: choice_with_replacement_def case_prod_beta split: if_splits)
  from a show ?thesis unfolding D eval_draw_def shape3_def
    by (auto simp: bindE_eq_Inl dest: t r c)
qed

lemma eval_next_error: "eval_next eg g = Inl e \<Longrightarrow> \<not> is_config_error e"
proof (cases eg)
  case (EvalNew D)
  obtain X y meta where D: "D = (X, y, meta)" by (metis prod.exhaust)
  assume "eval_next eg g = Inl e"
  then show ?thesis unfolding EvalNew D
    by (auto simp: shape3_def bindE_eq_Inl split: if_splits dest: eval_draw_error)
next
  case (EvalLoop D ind)
  assume "eval_next eg g = Inl e"
  then show ?thesis unfolding EvalLoop by (auto simp: bindE_eq_Inl dest: eval_draw_error)
next
  case EvalDone
  assume "eval_next eg g = Inl e"
  then show ?thesis unfolding EvalDone by auto
qed

lemma update_error: "sized d \<Longrightarrow> update ev d = Inl e \<Longrightarrow> \<not> is_config_error e"
  by (auto simp: update_def sized_def bindE_eq_Inl simp del: eval_next.simps
      split: option.splits dest: eval_next_error conf_next_error)

lemma conf_next_has_size: "conf_next ev D cg = Inr (out, cg') \<Longrightarrow> has_size cg'"
  by (cases cg) (auto simp: bindE_eq_Inr split: option.splits)

lemma update_sized: "sized d \<Longrightarrow> update ev d = Inr d' \<Longrightarrow> sized d'"
  by (auto simp: update_def sized_def bindE_eq_Inr simp del: eval_next.simps
      split: option.splits dest: conf_next_has_size)

lemma updates_error: "sized d \<Longrightarrow> updates ev k d = Inl e \<Longrightarrow> \<not> is_config_error e"
proof (induction k arbitrary: d)
  case 0
  then show ?case by simp
next
  case (Suc k)
  then show ?case
    by (auto simp: bindE_eq_Inl dest: update_error update_sized)
qed

lemma init_error: "init ev D ic ie r m = Inl e \<Longrightarrow> \<not> is_config_error e"
proof -
  assume a: "init ev D ic ie r m = Inl e"
  obtain X y meta where D: "D = (X, y, meta)" by (metis prod.exhaust)
  show ?thesis
  proof (cases ic)
    case True
    with a show ?thesis unfolding D
      by (auto simp: init_iterating bindE_eq_Inl dest: as_random_state_error)
  next
    case False
    with a show ?thesis unfolding D
      by (auto simp: init_static bindE_eq_Inl simp del: eval_next.simps split: if_splits
          dest: as_random_state_error conf_draw_error eval_next_error)
  qed
qed

lemma init_sized: "init ev D ic ie r m = Inr d \<Longrightarrow> sized d"
proof -
  assume a: "init ev D ic ie r m = Inr d"
  obtain X y meta where D: "D = (X, y, meta)" by (metis prod.exhaust)
  show ?thesis
  proof (cases ic)
    case True
    with a show ?thesis unfolding D by (auto simp: init_iterating bindE_eq_Inr sized_def)
  next
    case False
    with a have "conf_splits d = None" unfolding D by (auto elim!: init_static_Inr)
    then show ?thesis by (simp add: sized_def)
  qed
qed

lemma run_error: "run ev D ic ie r m k = Inl e \<Longrightarrow> \<not> is_config_error e"
  by (auto simp: run_def bindE_eq_Inl dest: init_error init_sized updates_error)

section \<open>The claims\<close>

subsection \<open>C1: a configuration split partitions the index range\<close>

text \<open>
  Claim C1. For \<open>N\<close> configurations and a training size \<open>Nt\<close> with \<open>0 < Nt < N\<close>, a draw of
  the configuration-split generator, the first of a generator created with the size
  \<open>Nt\<close> as well as any later one, succeeds. Its train indices \<open>ti\<close> are \<open>Nt\<close> distinct indices
  and its test indices \<open>si\<close> are \<open>N - Nt\<close> distinct indices; the two sets are disjoint,
  their union is \<open>[0, N)\<close>, and the test indices are the complement of the train indices.
  The train and test sets yielded are the rows of the three arrays at these indices.
\<close>

theorem split_partitions_indices:
  assumes "0 < Nt" "Nt < N"
    and "length (rows X) = N" "length (rows y) = N" "length (rows meta) = N"
    and "gen = ConfLoop (int Nt) g ret
         \<or> (gen = ConfNew None (Some (int Nt)) r ret \<and> as_random_state ev r = Inr g)"
  shows "\<exists>ti si g'.
           conf_next ev (X, y, meta) gen =
             Inr (((X\<lparr>rows := map (\<lambda>k. rows X ! k) ti\<rparr>,
                    y\<lparr>rows := map (\<lambda>k. rows y ! k) ti\<rparr>,
                    meta\<lparr>rows := map (\<lambda>k. rows meta ! k) ti\<rparr>),
                   (X\<lparr>rows := map (\<lambda>k. rows X ! k) si\<rparr>,
                    y\<lparr>rows := map (\<lambda>k. rows y ! k) si\<rparr>,
                    meta\<lparr>rows := map (\<lambda>k. rows meta ! k) si\<rparr>),
                   if ret then Some (Ints ti, Ints si) else None),
                  ConfLoop (int Nt) g' ret)
         \<and> length ti = Nt \<and> length si = N - Nt \<and> distinct ti \<and> distinct si
         \<and> set ti \<inter> set si = {} \<and> set ti \<union> set si = {0..<N}
         \<and> set si = {0..<N} - set ti"
proof -
  let ?ti = "train_ind N (int Nt) g" and ?si = "test_ind N (int Nt) g"
  have d: "conf_draw (X, y, meta) (int Nt) g ret =
     Inr (((select_rows ?ti X, select_rows ?ti y, select_rows ?ti meta),
           (select_rows ?si X, select_rows ?si y, select_rows ?si meta),
           if ret then Some (Ints ?ti, Ints ?si) else None), snd (permutation N g))"
    using conf_draw_ok [of X "int Nt" y meta g ret] assms(1-5) by simp
  have n: "conf_next ev (X, y, meta) gen =
     Inr (((select_rows ?ti X, select_rows ?ti y, select_rows ?ti meta),
           (select_rows ?si X, select_rows ?si y, select_rows ?si meta),
           if ret then Some (Ints ?ti, Ints ?si) else None),
          ConfLoop (int Nt) (snd (permutation N g)) ret)"
    using assms(6) d by auto
  have l: "length ?ti = Nt" "length ?si = N - Nt"
    using assms(2) by (simp_all add: length_train_ind length_test_ind)
  have s: "set ?si = {0..<N} - set ?ti" by (rule set_test_ind)
  have u: "set ?ti \<union> set ?si = {0..<N}" using s set_train_ind [of N "int Nt" g] by auto
  have i: "set ?ti \<inter> set ?si = {}" using s by auto
  show ?thesis
    using n l s u i distinct_train_ind [of N "int Nt" g] distinct_test_ind [of N "int Nt" g]
    unfolding select_rows_def by blast
qed

theorem split_partitions_indices_witness:
  "\<exists>ti si g'.
     conf_next ex_env (ex_array 3 2 1, ex_array 3 2 1, ex_array 3 2 2)
         (ConfNew None (Some 2) (RngSeed 5) True) =
       Inr (((ex_array 3 2 1\<lparr>rows := map (\<lambda>k. rows (ex_array 3 2 1) ! k) ti\<rparr>,
              ex_array 3 2 1\<lparr>rows := map (\<lambda>k. rows (ex_array 3 2 1) ! k) ti\<rparr>,
              ex_array 3 2 2\<lparr>rows := map (\<lambda>k. rows (ex_array 3 2 2) ! k) ti\<rparr>),
             (ex_array 3 2 1\<lparr>rows := map (\<lambda>k. rows (ex_array 3 2 1) ! k) si\<rparr>,
              ex_array 3 2 1\<lparr>rows := map (\<lambda>k. rows (ex_array 3 2 1) ! k) si\<rparr>,
              ex_array 3 2 2\<lparr>rows := map (\<lambda>k. rows (ex_array 3 2 2) ! k) si\<rparr>),
             Some (Ints ti, Ints si)),
            ConfLoop 2 g' True)
   \<and> length ti = 2 \<and> length si = 1 \<and> distinct ti \<and> distinct si
   \<and> set ti \<inter> set si = {} \<and> set ti \<union> set si = {0..<3}
   \<and> set si = {0..<3} - set ti"
  using split_partitions_indices [of 2 3 "ex_array 3 2 1" "ex_array 3 2 1" "ex_array 3 2 2"
      "ConfNew None (Some 2) (RngSeed 5) True" "seeded ex_env 5" True "RngSeed 5" ex_env]
  by simp

subsection \<open>C3: an evaluation subset picks one evaluation per row\<close>

text \<open>
  Claim C3. Let the three slices be aligned, of shapes \<open>[M, i, Dx]\<close>, \<open>[M, i, Dy]\<close> and
  \<open>[M, i, Dz]\<close>. Every draw of the evaluation-subset generator, the first one or a later
  one, that yields arrays yields three arrays of the shapes \<open>[M, Dx]\<close>, \<open>[M, Dy]\<close> and
  \<open>[M, Dz]\<close>, and there is one list \<open>cs\<close> of \<open>M\<close> evaluation indices below \<open>i\<close> such that row
  \<open>m\<close> of each yielded array is the evaluation \<open>cs ! m\<close> of row \<open>m\<close> of the corresponding
  slice. When there is at least one evaluation per row, the draw does yield.
\<close>

theorem evaluation_subset_rows:
  assumes "wf3 X" "wf3 y" "wf3 meta"
    and "shape3 X = (M, i, Dx)" "shape3 y = (M, i, Dy)" "shape3 meta = (M, i, Dz)"
    and "gen = EvalNew (X, y, meta) \<or> gen = EvalLoop (X, y, meta) [0..<i]"
  shows "(0 < i \<longrightarrow> (\<exists>out gen' g'. eval_next gen g = Inr (out, gen', g')))
       \<and> (\<forall>oX oy om gen' g'. eval_next gen g = Inr ((oX, oy, om), gen', g') \<longrightarrow>
            shape2 oX = (M, Dx) \<and> shape2 oy = (M, Dy) \<and> shape2 om = (M, Dz)
          \<and> gen' = EvalLoop (X, y, meta) [0..<i]
          \<and> (\<exists>cs. length cs = M \<and> (\<forall>m<M. cs ! m < i
                \<and> rows2 oX ! m = rows X ! m ! (cs ! m)
                \<and> rows2 oy ! m = rows y ! m ! (cs ! m)
                \<and> rows2 om ! m = rows meta ! m ! (cs ! m))))"
proof (cases "0 < i")
  case False
  then have "evals X = 0" "i = 0" using assms(4) by (simp_all add: shape3_def)
  then have "isl (eval_next gen g)" using assms(7) eval_next_no_evals [of X y meta g] by auto
  then show ?thesis using False by (auto simp: isl_def)
next
  case True
  have sh: "length (rows X) = M" "evals X = i" "width X = Dx"
    "length (rows y) = M" "evals y = i" "width y = Dy"
    "length (rows meta) = M" "evals meta = i" "width meta = Dz"
    using assms(4-6) by (simp_all add: shape3_def)
  let ?cs = "eval_ind X g"
  have al: "length (rows y) = length (rows X)" "length (rows meta) = length (rows X)"
    "evals y = evals X" "evals meta = evals X" "0 < evals X"
    using sh True by simp_all
  have n: "eval_next gen g =
      Inr ((pick X ?cs, pick y ?cs, pick meta ?cs), EvalLoop (X, y, meta) [0..<i],
           snd (randints i M g))"
    using assms(7) eval_next_new_ok [OF assms(1-3) al, of g]
      eval_next_loop_ok [OF assms(1-3) al, of g] sh by auto
  have l: "length ?cs = M" using sh by (simp add: length_eval_ind)
  have b: "\<forall>m<M. ?cs ! m < i" using l al(5) sh(2) eval_ind_less [of X _ g] by auto
  have s: "shape2 (pick X ?cs) = (M, Dx)" "shape2 (pick y ?cs) = (M, Dy)"
    "shape2 (pick meta ?cs) = (M, Dz)"
    using l sh shape2_pick [of ?cs X] shape2_pick [of ?cs y] shape2_pick [of ?cs meta] by simp_all
  have r: "\<forall>m<M. rows2 (pick X ?cs) ! m = rows X ! m ! (?cs ! m)
      \<and> rows2 (pick y ?cs) ! m = rows y ! m ! (?cs ! m)
      \<and> rows2 (pick meta ?cs) ! m = rows meta ! m ! (?cs ! m)"
    using l sh by (simp add: rows2_pick)
  have "\<exists>cs. length cs = M \<and> (\<forall>m<M. cs ! m < i
      \<and> rows2 (pick X ?cs) ! m = rows X ! m ! (cs ! m)
      \<and> rows2 (pick y ?cs) ! m = rows y ! m ! (cs ! m)
      \<and> rows2 (pick meta ?cs) ! m = rows meta ! m ! (cs ! m))"
    using l b r by blast
  then show ?thesis using n s by simp
qed

theorem evaluation_subset_rows_witness:
  "\<exists>oX oy om gen' g' cs.
     eval_next (EvalNew (ex_array 2 2 1, ex_array 2 2 4, ex_array 2 2 2)) ex_rng
       = Inr ((oX, oy, om), gen', g')
   \<and> shape2 oX = (2, 1) \<and> shape2 oy = (2, 4) \<and> shape2 om = (2, 2)
   \<and> gen' = EvalLoop (ex_array 2 2 1, ex_array 2 2 4, ex_array 2 2 2) [0..<2]
   \<and> length cs = 2 \<and> cs ! 0 < 2 \<and> cs ! 1 < 2
   \<and> rows2 oX ! 0 = rows (ex_array 2 2 1) ! 0 ! (cs ! 0)
   \<and> rows2 oy ! 0 = rows (ex_array 2 2 4) ! 0 ! (cs ! 0)
   \<and> rows2 om ! 0 = rows (ex_array 2 2 2) ! 0 ! (cs ! 0)
   \<and> rows2 oX ! 1 = rows (ex_array 2 2 1) ! 1 ! (cs ! 1)
   \<and> rows2 oy ! 1 = rows (ex_array 2 2 4) ! 1 ! (cs ! 1)
   \<and> rows2 om ! 1 = rows (ex_array 2 2 2) ! 1 ! (cs ! 1)"
proof -
  let ?D = "(ex_array 2 2 1, ex_array 2 2 4, ex_array 2 2 2)"
  note t = evaluation_subset_rows [of "ex_array 2 2 1" "ex_array 2 2 4" "ex_array 2 2 2" 2 2 1 4 2
      "EvalNew ?D" ex_rng]
  have h: "wf3 (ex_array 2 2 1)" "wf3 (ex_array 2 2 4)" "wf3 (ex_array 2 2 2)"
    "shape3 (ex_array 2 2 1) = (2, 2, 1)" "shape3 (ex_array 2 2 4) = (2, 2, 4)"
    "shape3 (ex_array 2 2 2) = (2, 2, 2)"
    by (simp_all add: shape3_def)
  from t [OF h] obtain oX oy om gen' g' where
    e: "eval_next (EvalNew ?D) ex_rng = Inr ((oX, oy, om), gen', g')"
    by (metis prod.exhaust zero_less_numeral)
  with t [OF h] obtain cs where
    "shape2 oX = (2, 1)" "shape2 oy = (2, 4)" "shape2 om = (2, 2)"
    "gen' = EvalLoop ?D [0..<2]" "length cs = 2"
    "\<forall>m<2. cs ! m < 2
      \<and> rows2 oX ! m = rows (ex_array 2 2 1) ! m ! (cs ! m)
      \<and> rows2 oy ! m = rows (ex_array 2 2 4) ! m ! (cs ! m)
      \<and> rows2 om ! m = rows (ex_array 2 2 2) ! m ! (cs ! m)"
    by blast
  with e show ?thesis by (intro exI [of _ oX] exI [of _ oy] exI [of _ om] exI [of _ gen']
        exI [of _ g'] exI [of _ cs]) simp
qed

subsection \<open>C2: in full iteration the test arrays keep all evaluations\<close>



subsection \<open>C4: which training sizes a split draw rejects\<close>




subsection \<open>C5: where a disagreement of the shapes is detected\<close>




subsection \<open>C6: runs with the same seed agree\<close>

text \<open>
  Claim C6. Two runs that construct the object with the same integer seed on the same
  arrays, in the same mode, and call \<open>update\<close> the same number of times end in the same
  state, so with the same train and test arrays, or with the same exception. The seed of
  the operating system is the one thing that may differ between two runs; with an integer
  seed no step reads it, in any mode: the configuration-split generator is seeded with an
  integer drawn from the seeded generator of the object. The number \<open>k\<close> of calls is
  arbitrary, so the arrays agree after every call of a sequence.
\<close>

theorem seeded_runs_agree:
  "run (ev\<lparr>entropy := e1\<rparr>) D iterate_confs iterate_evals (RngSeed s) m k
     = run (ev\<lparr>entropy := e2\<rparr>) D iterate_confs iterate_evals (RngSeed s) m k
   \<and> map_sum id arrays (run (ev\<lparr>entropy := e1\<rparr>) D iterate_confs iterate_evals (RngSeed s) m k)
     = map_sum id arrays (run (ev\<lparr>entropy := e2\<rparr>) D iterate_confs iterate_evals (RngSeed s) m k)"
proof -
  have "run (ev\<lparr>entropy := e\<rparr>) D iterate_confs iterate_evals (RngSeed s) m k
      = run ev D iterate_confs iterate_evals (RngSeed s) m k" for e
  proof (cases "init ev D iterate_confs iterate_evals (RngSeed s) m")
    case (Inl err)
    then show ?thesis by (simp add: run_def init_entropy)
  next
    case (Inr d)
    then have "no_entropy d" by (rule init_no_entropy)
    then show ?thesis using Inr by (simp add: run_def init_entropy updates_entropy)
  qed
  then show ?thesis by simp
qed

theorem seeded_runs_agree_witness:
  "map_sum id arrays
     (run (ex_env\<lparr>entropy := 1\<rparr>) (ex_array 10 3 2, ex_array 10 3 1, ex_array 10 3 1)
        True False (RngSeed 42) 4 2)
   = map_sum id arrays
     (run (ex_env\<lparr>entropy := 2\<rparr>) (ex_array 10 3 2, ex_array 10 3 1, ex_array 10 3 1)
        True False (RngSeed 42) 4 2)"
  using seeded_runs_agree [where ev = ex_env and ?e1.0 = 1 and ?e2.0 = 2 and s = 42 and m = 4
      and k = 2 and iterate_confs = True and iterate_evals = False
      and D = "(ex_array 10 3 2, ex_array 10 3 1, ex_array 10 3 1)"]
  by simp

subsection \<open>C7: without iteration over configurations the test arrays are frozen\<close>

text \<open>
  Claim C7. Let the object be constructed with \<open>iterate_confs = False\<close>. After any number of
  calls of \<open>update\<close> the test arrays, the three full arrays and the absent
  configuration-split generator are as the constructor left them. With
  \<open>iterate_evals = True\<close> the evaluation-subset generator keeps the train slices \<open>ts\<close> of the
  one split drawn at construction, and every further \<open>update\<close> that returns sets the train
  arrays to a draw of one evaluation per row of \<open>ts\<close>. With \<open>iterate_evals = False\<close> every
  sequence of calls returns and leaves the whole object unchanged.
\<close>

theorem static_modes_freeze_test:
  assumes "init ev D False ie r m = Inr d0"
  shows "(\<not> ie \<longrightarrow> updates ev k d0 = Inr d0)
       \<and> (\<forall>d. updates ev k d0 = Inr d \<longrightarrow>
             test_X d = test_X d0 \<and> test_Y d = test_Y d0 \<and> test_meta d = test_meta d0
           \<and> X_full d = X_full d0 \<and> y_full d = y_full d0 \<and> meta_full d = meta_full d0
           \<and> conf_splits d = None \<and> conf_splits d0 = None
           \<and> (ie \<longrightarrow> (\<exists>ts. eval_splits d0 = Some (EvalNew ts)
                 \<and> (eval_splits d = Some (EvalNew ts)
                      \<or> eval_splits d = Some (EvalLoop ts [0..<evals (fst ts)]))
                 \<and> (\<forall>d'. update ev d = Inr d' \<longrightarrow>
                       (\<exists>tX tY tM.
                          eval_draw ts [0..<evals (fst ts)] (rng d) = Inr ((tX, tY, tM), rng d')
                        \<and> train_X d' = Arr tX \<and> train_Y d' = Arr tY \<and> train_meta d' = Arr tM)))))"
proof -
  obtain X y meta where D: "D = (X, y, meta)" by (metis prod.exhaust)
  show ?thesis
  proof (cases ie)
    case False
    from assms have s: "eval_splits d0 = None" "conf_splits d0 = None"
      unfolding D using False by (auto elim!: init_static_Inr)
    then have "updates ev k d0 = Inr d0" by (rule updates_fixed)
    then show ?thesis using False s by simp
  next
    case True
    from assms obtain ts where s: "eval_splits d0 = Some (EvalNew ts)" "conf_splits d0 = None"
      unfolding D using True by (auto elim!: init_static_Inr)
    have l: "live_on ts (EvalNew ts)" by (simp add: live_on_def)
    have "test_X d = test_X d0 \<and> test_Y d = test_Y d0 \<and> test_meta d = test_meta d0
           \<and> X_full d = X_full d0 \<and> y_full d = y_full d0 \<and> meta_full d = meta_full d0
           \<and> conf_splits d = None \<and> conf_splits d0 = None
           \<and> (\<exists>ts. eval_splits d0 = Some (EvalNew ts)
                 \<and> (eval_splits d = Some (EvalNew ts)
                      \<or> eval_splits d = Some (EvalLoop ts [0..<evals (fst ts)]))
                 \<and> (\<forall>d'. update ev d = Inr d' \<longrightarrow>
                       (\<exists>tX tY tM.
                          eval_draw ts [0..<evals (fst ts)] (rng d) = Inr ((tX, tY, tM), rng d')
                        \<and> train_X d' = Arr tX \<and> train_Y d' = Arr tY \<and> train_meta d' = Arr tM)))"
      if u: "updates ev k d0 = Inr d" for d
    proof -
      from updates_evals [OF s(1) l u] obtain eg where
        f: "same_but_train d0 d" and eg: "eval_splits d = Some eg" "live_on ts eg" by blast
      have "\<exists>tX tY tM. eval_draw ts [0..<evals (fst ts)] (rng d) = Inr ((tX, tY, tM), rng d')
          \<and> train_X d' = Arr tX \<and> train_Y d' = Arr tY \<and> train_meta d' = Arr tM"
        if "update ev d = Inr d'" for d'
        using eg that by (rule update_evals(3))
      then show ?thesis using f eg s by (auto simp: same_but_train_def live_on_def)
    qed
    then show ?thesis using True by blast
  qed
qed

theorem static_modes_freeze_test_witness:
  "\<exists>d0 d. init ex_env (ex_array 10 3 2, ex_array 10 3 1, ex_array 10 3 1) False True (RngSeed 0) 4
             = Inr d0
     \<and> updates ex_env 2 d0 = Inr d
     \<and> test_X d = test_X d0 \<and> test_Y d = test_Y d0 \<and> test_meta d = test_meta d0
     \<and> (\<exists>sX. test_X d0 = Arr sX \<and> shape3 sX = (2, 3, 2))
     \<and> (\<exists>ts. eval_splits d0 = Some (EvalNew ts)
           \<and> eval_splits d = Some (EvalLoop ts [0..<evals (fst ts)]))"
proof -
  let ?X = "ex_array 10 3 2" and ?y = "ex_array 10 3 1"
  let ?D = "(?X, ?y, ?y)"
  let ?ti = "train_ind 10 8 (conf_rng ex_env (seeded ex_env 0))"
  let ?si = "test_ind 10 8 (conf_rng ex_env (seeded ex_env 0))"
  let ?ts = "(select_rows ?ti ?X, select_rows ?ti ?y, select_rows ?ti ?y)"
  have "\<exists>d0. init ex_env ?D False True (RngSeed 0) 4 = Inr d0"
    by (rule init_static_ok [where ?g0.0 = "seeded ex_env 0"]) simp_all
  then obtain d0 where i: "init ex_env ?D False True (RngSeed 0) 4 = Inr d0" by blast
  then have e: "eval_splits d0 = Some (EvalNew ?ts)"
    and t: "test_X d0 = Arr (select_rows ?si ?X)"
    by (auto elim!: init_static_Inr)
  have b: "\<forall>k\<in>set ?ti. k < 10" by (auto dest: train_ind_less)
  have "\<exists>d. updates ex_env 2 d0 = Inr d"
    by (rule updates_evals_ok [where X = "select_rows ?ti ?X" and y = "select_rows ?ti ?y"
          and meta = "select_rows ?ti ?y" and eg = "EvalNew ?ts"])
      (simp_all add: live_on_def wf3_select_rows b e)
  then obtain d where u: "updates ex_env 2 d0 = Inr d" by blast
  have ne: "eval_splits d \<noteq> Some (EvalNew ?ts)"
  proof -
    from u obtain d1 where "updates ex_env 1 d0 = Inr d1" "update ex_env d1 = Inr d"
      by (auto simp: numeral_2_eq_2 updates_snoc bindE_eq_Inr simp del: updates.simps)
    moreover have "live_on ?ts (EvalNew ?ts)" by (simp add: live_on_def)
    ultimately obtain eg where "eval_splits d1 = Some eg" "live_on ?ts eg"
      using updates_evals [OF e, of ?ts ex_env 1 d1] by blast
    from update_evals(2) [OF this \<open>update ex_env d1 = Inr d\<close>] show ?thesis by simp
  qed
  have sh: "shape3 (select_rows ?si ?X) = (2, 3, 2)"
    by (simp add: shape3_select_rows length_test_ind)
  from static_modes_freeze_test [OF i, of 2] u e t ne sh i show ?thesis by auto
qed

subsection \<open>C10: in mode 2 the train attributes are \<open>None\<close> until the first update\<close>

text \<open>
  Claim C10. After a construction with \<open>iterate_confs = False\<close> and \<open>iterate_evals = True\<close>
  the attributes \<open>train_X\<close>, \<open>train_Y\<close> and \<open>train_meta\<close> hold \<open>None\<close>, the three test
  attributes hold arrays, and the object holds an evaluation-subset generator that has not
  run yet. A first call of \<open>update\<close> that returns sets the train attributes to the first
  yield of this generator and leaves the test attributes alone. On well-formed arrays
  with at least one evaluation per configuration the call does return.
\<close>

theorem train_unset_until_first_update:
  assumes "init ev (X, y, meta) False True r m = Inr d"
  shows "train_X d = PyNone \<and> train_Y d = PyNone \<and> train_meta d = PyNone
       \<and> (\<exists>sX sY sM. test_X d = Arr sX \<and> test_Y d = Arr sY \<and> test_meta d = Arr sM)
       \<and> (\<exists>ts. eval_splits d = Some (generate_evaluation_subsets ts)
            \<and> (\<forall>d'. update ev d = Inr d' \<longrightarrow>
                  (\<exists>tX tY tM eg g'.
                     eval_next (generate_evaluation_subsets ts) (rng d) = Inr ((tX, tY, tM), eg, g')
                   \<and> train_X d' = Arr tX \<and> train_Y d' = Arr tY \<and> train_meta d' = Arr tM
                   \<and> test_X d' = test_X d \<and> test_Y d' = test_Y d \<and> test_meta d' = test_meta d)))
       \<and> (wf3 X \<and> wf3 y \<and> wf3 meta \<and> evals y = evals X \<and> evals meta = evals X \<and> 0 < evals X
            \<longrightarrow> (\<exists>d'. update ev d = Inr d'))"
proof -
  let ?n = "m * int (width X)" and ?N = "length (rows X)"
  from assms obtain g0 where
    ok: "length (rows X) \<le> length (rows y)" "length (rows X) \<le> length (rows meta)"
    and d: "d = \<lparr>X_full = X, y_full = y, meta_full = meta, rng = after_seed g0,
        conf_splits = None,
        eval_splits = Some (EvalNew
          (select_rows (train_ind ?N ?n (conf_rng ev g0)) X,
           select_rows (train_ind ?N ?n (conf_rng ev g0)) y,
           select_rows (train_ind ?N ?n (conf_rng ev g0)) meta)),
        train_X = PyNone, train_Y = PyNone, train_meta = PyNone,
        test_X = Arr (select_rows (test_ind ?N ?n (conf_rng ev g0)) X),
        test_Y = Arr (select_rows (test_ind ?N ?n (conf_rng ev g0)) y),
        test_meta = Arr (select_rows (test_ind ?N ?n (conf_rng ev g0)) meta)\<rparr>"
    by (auto elim!: init_static_Inr)
  let ?ti = "train_ind ?N ?n (conf_rng ev g0)"
  let ?ts = "(select_rows ?ti X, select_rows ?ti y, select_rows ?ti meta)"
  have e: "eval_splits d = Some (generate_evaluation_subsets ?ts)"
    by (simp add: d generate_evaluation_subsets_def)
  have u: "\<exists>tX tY tM eg g'.
             eval_next (generate_evaluation_subsets ?ts) (rng d) = Inr ((tX, tY, tM), eg, g')
           \<and> train_X d' = Arr tX \<and> train_Y d' = Arr tY \<and> train_meta d' = Arr tM
           \<and> test_X d' = test_X d \<and> test_Y d' = test_Y d \<and> test_meta d' = test_meta d"
    if "update ev d = Inr d'" for d'
    using that e
    by (auto simp: update_def bindE_eq_Inr generate_evaluation_subsets_def simp del: eval_next.simps)
  have t: "\<exists>d'. update ev d = Inr d'"
    if w: "wf3 X \<and> wf3 y \<and> wf3 meta \<and> evals y = evals X \<and> evals meta = evals X \<and> 0 < evals X"
  proof -
    have b: "\<forall>k\<in>set ?ti. k < length (rows X)" "\<forall>k\<in>set ?ti. k < length (rows y)"
      "\<forall>k\<in>set ?ti. k < length (rows meta)"
      using ok by (auto dest: train_ind_less)
    show ?thesis
      by (rule update_evals_ok [where X = "select_rows ?ti X" and y = "select_rows ?ti y"
            and meta = "select_rows ?ti meta" and eg = "EvalNew ?ts"])
         (simp_all add: w b wf3_select_rows live_on_def d)
  qed
  show ?thesis using e u t by (simp add: d) blast
qed

theorem train_unset_until_first_update_witness:
  "\<exists>d d'. init ex_env (ex_array 10 3 2, ex_array 10 3 1, ex_array 10 3 1) False True (RngSeed 0) 4
             = Inr d
     \<and> train_X d = PyNone \<and> train_Y d = PyNone \<and> train_meta d = PyNone
     \<and> (\<exists>sX sY sM. test_X d = Arr sX \<and> test_Y d = Arr sY \<and> test_meta d = Arr sM)
     \<and> update ex_env d = Inr d'
     \<and> (\<exists>tX tY tM. train_X d' = Arr tX \<and> train_Y d' = Arr tY \<and> train_meta d' = Arr tM)
     \<and> test_X d' = test_X d \<and> test_Y d' = test_Y d \<and> test_meta d' = test_meta d"
proof -
  let ?D = "(ex_array 10 3 2, ex_array 10 3 1, ex_array 10 3 1)"
  have "\<exists>d. init ex_env ?D False True (RngSeed 0) 4 = Inr d"
    by (rule init_static_ok [where ?g0.0 = "seeded ex_env 0"]) simp_all
  then obtain d where i: "init ex_env ?D False True (RngSeed 0) 4 = Inr d" by blast
  note t = train_unset_until_first_update [OF i]
  from t obtain d' where u: "update ex_env d = Inr d'" by auto
  from t u i show ?thesis by (intro exI [of _ d] exI [of _ d']) auto
qed

subsection \<open>C9: the training size is the multiplier times the feature width\<close>



subsection \<open>C8: when the missing training size is reported\<close>

text \<open>
  Claim C8 says that a missing training fraction and size is reported at construction
  time and not later. The check is the first statement after the set-up of the random
  generator in the body of the generator function, and this body does not run when the
  generator is created: the creation with neither argument returns a generator, and the
  error is what its first \<open>next\<close> returns.
\<close>

theorem config_error_counterexample:
  "iterate_dataset_configurations None None (RngSeed 0) False = ConfNew None None (RngSeed 0) False
   \<and> conf_next ex_env (ex_array 10 3 2, ex_array 10 3 1, ex_array 10 3 1)
         (iterate_dataset_configurations None None (RngSeed 0) False)
       = Inl (RuntimeError ''Either train_frac or train_size must be provided.'')"
  by (simp add: iterate_dataset_configurations_def)

text \<open>
  Claim C8 as amended. When neither a training fraction nor a training size is supplied
  to the configuration-split generator and its random generator argument is one the
  library accepts, the first draw of the generator fails with the configuration error,
  whatever the arrays and the random stream are: nothing is drawn, no array is read, and
  no state is left. The error is reported at this first draw, not when the generator is
  created. The constructor always supplies the size \<open>train_set_multiplier * Dx\<close>, so no
  construction and no later \<open>update\<close> reports the configuration error.
\<close>

theorem config_error_at_first_draw:
  assumes "as_random_state ev r = Inr g"
  shows "conf_next ev D (iterate_dataset_configurations None None r ret)
           = Inl (RuntimeError ''Either train_frac or train_size must be provided.'')
       \<and> (\<forall>msg. run ev' D' iterate_confs iterate_evals r' m k \<noteq> Inl (RuntimeError msg))"
proof
  show "conf_next ev D (iterate_dataset_configurations None None r ret)
      = Inl (RuntimeError ''Either train_frac or train_size must be provided.'')"
    using assms by (simp add: iterate_dataset_configurations_def)
  show "\<forall>msg. run ev' D' iterate_confs iterate_evals r' m k \<noteq> Inl (RuntimeError msg)"
  proof (intro allI notI)
    fix msg
    assume "run ev' D' iterate_confs iterate_evals r' m k = Inl (RuntimeError msg)"
    then have "\<not> is_config_error (RuntimeError msg)" by (rule run_error)
    then show False by simp
  qed
qed

theorem config_error_at_first_draw_witness:
  "conf_next ex_env (ex_array 10 3 2, ex_array 10 3 1, ex_array 10 3 1)
      (iterate_dataset_configurations None None (RngSeed 0) True)
     = Inl (RuntimeError ''Either train_frac or train_size must be provided.'')
   \<and> (\<forall>msg. run ex_env (ex_array 10 3 2, ex_array 10 3 1, ex_array 10 3 1) True False RngNone 10 3
          \<noteq> Inl (RuntimeError msg))"
  using config_error_at_first_draw [where ev = ex_env and r = "RngSeed 0" and g = "seeded ex_env 0"
      and D = "(ex_array 10 3 2, ex_array 10 3 1, ex_array 10 3 1)" and ret = True
      and ev' = ex_env and D' = "(ex_array 10 3 2, ex_array 10 3 1, ex_array 10 3 1)"
      and iterate_confs = True and iterate_evals = False and r' = RngNone and m = 10 and k = 3]
  by simp

end
